theory Spec2Isabelle
  imports Main "HOL-Library.Word"
begin

section \<open>The Ether Dream connection (EtherConn.ts)\<close>

text \<open>
  A shallow embedding of \<^verbatim>\<open>packages/ether-dream/src/EtherConn.ts\<close> and of
  \<^verbatim>\<open>packages/draw/src/Path.ts\<close>. The class \<^verbatim>\<open>EtherConn\<close> becomes a record that is
  passed through every operation. JavaScript runs the class on one thread: a piece of
  synchronous code runs to its next \<^verbatim>\<open>await\<close>, the suspended rest of every
  \<^verbatim>\<open>async\<close> function is kept as a stack of frames, and a resolved promise puts that
  stack on the microtask queue. The record therefore carries, next to the fields of the
  class, the microtask queue, the pending timers and a trace of what the class did to
  the outside (bytes written to the socket, handlers invoked, promises settled).
\<close>

subsection \<open>Constants and data\<close>

type_synonym byte = "8 word"

definition STANDARD_RESPONSE_SIZE :: nat where
  "STANDARD_RESPONSE_SIZE = 22"

definition PLAYBACK_IDLE :: int where
  "PLAYBACK_IDLE = 0"

definition MAX_FULLNESS :: int where
  "MAX_FULLNESS = 1799"

text \<open>What the source throws: \<^verbatim>\<open>new Error(msg)\<close>, and the \<^verbatim>\<open>TypeError\<close> of
  JavaScript for a method call on \<^verbatim>\<open>undefined\<close>.\<close>

datatype error = Error string | TypeError

text \<open>\<^verbatim>\<open>IPoint\<close>: five numbers, and four optional numbers.\<close>

record IPoint =
  point_x :: int
  point_y :: int
  point_r :: int
  point_g :: int
  point_b :: int
  point_control :: "int option"
  point_i :: "int option"
  point_u1 :: "int option"
  point_u2 :: "int option"

text \<open>The value \<^verbatim>\<open>parseStandardResponse\<close> returns, as far as the class reads it:
  \<^verbatim>\<open>data.response\<close> and three fields of \<^verbatim>\<open>data.status\<close>.\<close>

record dac_status =
  buffer_fullness :: int
  playback_state :: int
  playback_flags :: int

record std_response =
  response :: string
  status :: dac_status

text \<open>The decoder \<^verbatim>\<open>parseStandardResponse\<close> lives in \<^verbatim>\<open>parse.ts\<close>, which is not among
  the sources, and the byte offsets it reads are not written down anywhere: it is a
  parameter \<open>P\<close> of every operation that decodes a response.\<close>

type_synonym parser = "byte list \<Rightarrow> std_response"

subsection \<open>Wire codec\<close>

text \<open>Modelled from the spec: \<^verbatim>\<open>writeUnsignedInt16\<close>, \<^verbatim>\<open>writeSignedInt16\<close> and
  \<^verbatim>\<open>writeUnsignedInt32\<close> are imported from \<^verbatim>\<open>write.ts\<close>, which is not among the
  sources. The spec fixes them as fixed-width little-endian integers of 16 and 32 bits,
  signed (two's complement) and unsigned; the result is a binary string, one character
  per byte, lowest byte first. \<open>char_of\<close> keeps the low eight bits of its argument.\<close>

definition writeUnsignedInt16 :: "int \<Rightarrow> string" where
  "writeUnsignedInt16 n = [char_of n, char_of (n div 2 ^ 8)]"

definition writeSignedInt16 :: "int \<Rightarrow> string" where
  "writeSignedInt16 n = [char_of n, char_of (n div 2 ^ 8)]"

definition writeUnsignedInt32 :: "int \<Rightarrow> string" where
  "writeUnsignedInt32 n =
     [char_of n, char_of (n div 2 ^ 8), char_of (n div 2 ^ 16), char_of (n div 2 ^ 24)]"

text \<open>\<^verbatim>\<open>v || 0\<close> on an optional number: \<^verbatim>\<open>undefined\<close> and \<^verbatim>\<open>0\<close> are falsy.\<close>

fun or0 :: "int option \<Rightarrow> int" where
  "or0 None = 0"
| "or0 (Some v) = (if v = 0 then 0 else v)"

text \<open>Lines 204 to 217 of \<^verbatim>\<open>sendPoints\<close>: the command string is built by a loop over
  the index \<open>i\<close>, appending nine fields per point. \<open>sendPoints_loop i batch points cmd\<close>
  is the loop from index \<open>i\<close> on; inside the loop \<open>i < batch = points.length\<close>.\<close>

definition point_fields :: "IPoint \<Rightarrow> string" where
  "point_fields p =
     writeUnsignedInt16 (or0 (point_control p)) @
     writeSignedInt16 (or0 (Some (point_x p))) @
     writeSignedInt16 (or0 (Some (point_y p))) @
     writeUnsignedInt16 (or0 (Some (point_r p))) @
     writeUnsignedInt16 (or0 (Some (point_g p))) @
     writeUnsignedInt16 (or0 (Some (point_b p))) @
     writeUnsignedInt16 (or0 (point_i p)) @
     writeUnsignedInt16 (or0 (point_u1 p)) @
     writeUnsignedInt16 (or0 (point_u2 p))"

function sendPoints_loop :: "nat \<Rightarrow> nat \<Rightarrow> IPoint list \<Rightarrow> string \<Rightarrow> string" where
  "sendPoints_loop i batch points cmd =
     (if i < batch \<and> i < length points
      then sendPoints_loop (Suc i) batch points (cmd @ point_fields (points ! i))
      else cmd)"
  by pat_completeness auto
termination
  by (relation "measure (\<lambda>(i, batch, points, cmd). batch - i)") auto

declare sendPoints_loop.simps [simp del]

definition sendPoints_cmd :: "IPoint list \<Rightarrow> string" where
  "sendPoints_cmd points =
     (let batch = length points;
          cmd = ''d'' @ writeUnsignedInt16 (int batch)
      in sendPoints_loop 0 batch points cmd)"





subsection \<open>Suspended code, timers and the trace\<close>

text \<open>One frame per \<^verbatim>\<open>await\<close> of the class: the rest of the function after it. A
  continuation is the stack of frames that resumes when a promise settles, innermost
  first. \<open>External n\<close> stands for code outside the class that awaits the call it made;
  resuming it is recorded in the trace as \<open>Resolved n\<close>.\<close>

datatype frame =
    AfterPrepareResp \<comment> \<open>\<^verbatim>\<open>sendPrepare\<close>, line 150\<close>
  | AfterBeginResp \<comment> \<open>\<^verbatim>\<open>sendBegin\<close>, line 173\<close>
  | AfterUpdateResp \<comment> \<open>\<^verbatim>\<open>sendUpdate\<close>, line 182\<close>
  | AfterStopResp \<comment> \<open>\<^verbatim>\<open>sendStop\<close>, line 189\<close>
  | AfterEmergencyStopResp \<comment> \<open>\<^verbatim>\<open>sendEmergencyStop\<close>, line 194\<close>
  | AfterPingResp \<comment> \<open>\<^verbatim>\<open>sendPing\<close>, line 200\<close>
  | AfterPointsResp \<comment> \<open>\<^verbatim>\<open>sendPoints\<close>, line 220\<close>
  | AfterPointsBegin \<comment> \<open>\<^verbatim>\<open>sendPoints\<close>, after line 223\<close>
  | RunAfterPrepare "IPoint list" \<comment> \<open>\<^verbatim>\<open>run\<close>, line 260, holding \<^verbatim>\<open>frame\<close>\<close>
  | RunAfterDelay "IPoint list" int \<comment> \<open>\<^verbatim>\<open>run\<close>, line 267, holding \<^verbatim>\<open>frame\<close> and \<^verbatim>\<open>cap\<close>\<close>
  | RunAfterPoints \<comment> \<open>\<^verbatim>\<open>run\<close>, line 270\<close>
  | RunAfterDelay0 \<comment> \<open>\<^verbatim>\<open>run\<close>, line 250\<close>
  | ConnectThen \<comment> \<open>\<^verbatim>\<open>connect\<close>, line 89: \<^verbatim>\<open>resolve(true)\<close>\<close>
  | External nat

type_synonym cont = "frame list"

datatype timer_task =
    PopInput \<comment> \<open>the \<^verbatim>\<open>setTimeout\<close> of the data listener, line 107\<close>
  | Resume cont \<comment> \<open>the \<^verbatim>\<open>setTimeout(resolve, t)\<close> of \<^verbatim>\<open>delay\<close>, line 31\<close>

datatype effect =
    Write string \<comment> \<open>\<^verbatim>\<open>client.write\<close>\<close>
  | Destroy \<comment> \<open>\<^verbatim>\<open>client.destroy\<close>\<close>
  | Invoked cont "byte list" \<comment> \<open>a handler's callback called with its bytes\<close>
  | Resolved nat \<comment> \<open>outside code resumed\<close>
  | Rejected error cont \<comment> \<open>a rejection that abandons these frames\<close>

datatype socket = Socket string int

subsection \<open>The class\<close>

text \<open>The fields of \<^verbatim>\<open>EtherConn\<close> (lines 34 to 50), then the run-time state beside
  them: \<open>connecting\<close> is the code that awaits the promise of \<^verbatim>\<open>connect\<close> while the
  socket has not connected yet. \<^verbatim>\<open>streamCallback\<close> is called without arguments and may
  answer differently each time: it is a function of the number of calls made so far
  (\<open>pulls\<close>). Output to the console is not modelled.\<close>

record EtherConn =
  client :: "socket option"
  inputqueue :: "byte list"
  inputhandlerqueue :: "(nat \<times> cont) list"
  timer :: int
  acks :: int
  fullness :: int
  points_in_buffer :: int
  playback_state :: int
  playsent :: bool
  beginsent :: bool
  preparesent :: bool
  valid :: bool
  rate :: "int option"
  streamCallback :: "(nat \<Rightarrow> IPoint list) option"
  running :: bool
  ip :: "string option"
  port :: "int option"
  connecting :: "cont option"
  microtasks :: "cont list"
  timers :: "(nat \<times> timer_task) list"
  effects :: "effect list"
  pulls :: nat

text \<open>A freshly constructed object: the field initialisers of lines 34 to 50.\<close>

definition fresh :: EtherConn where
  "fresh = \<lparr> client = None, inputqueue = [], inputhandlerqueue = [], timer = 0, acks = 0,
     fullness = 0, points_in_buffer = 0, playback_state = 0, playsent = False,
     beginsent = False, preparesent = False, valid = True, rate = None,
     streamCallback = None, running = False, ip = None, port = None,
     connecting = None, microtasks = [], timers = [], effects = [], pulls = 0 \<rparr>"

text \<open>\<^verbatim>\<open>handleStandardResponse\<close>, lines 153 to 162.\<close>

definition handleStandardResponse :: "std_response \<Rightarrow> EtherConn \<Rightarrow> EtherConn" where
  "handleStandardResponse d s =
     (let s1 = s\<lparr>fullness := buffer_fullness (status d)\<rparr>;
          s2 = s1\<lparr>playback_state := dac_status.playback_state (status d)\<rparr>;
          s3 = s2\<lparr>valid := (response d = ''a'')\<rparr>
      in if playback_flags (status d) = 2 then s3\<lparr>beginsent := False\<rparr> else s3)"

text \<open>The callback that \<^verbatim>\<open>waitForResponse\<close> queues (lines 136 to 140): decode, update
  the state, resolve the promise, which puts the awaiting frames on the microtask
  queue.\<close>

definition callback :: "parser \<Rightarrow> cont \<Rightarrow> byte list \<Rightarrow> EtherConn \<Rightarrow> EtherConn" where
  "callback P k bs s =
     (let s0 = s\<lparr>effects := effects s @ [Invoked k bs]\<rparr>;
          st = P bs;
          s1 = handleStandardResponse st s0
      in s1\<lparr>microtasks := microtasks s1 @ [k]\<rparr>)"

text \<open>\<^verbatim>\<open>_popinputqueue\<close>, lines 57 to 67.\<close>

definition popinputqueue :: "parser \<Rightarrow> EtherConn \<Rightarrow> EtherConn" where
  "popinputqueue P s =
     (case inputhandlerqueue s of
        [] \<Rightarrow> s
      | handler # rest \<Rightarrow>
          if length (inputqueue s) \<ge> fst handler then
            let resp = take (fst handler) (inputqueue s);
                s1 = s\<lparr>inputqueue := drop (fst handler) (inputqueue s)\<rparr>;
                s2 = s1\<lparr>inputhandlerqueue := rest\<rparr>
            in callback P (snd handler) resp s2
          else s)"

text \<open>\<^verbatim>\<open>_send\<close>, lines 52 to 55. \<^verbatim>\<open>this.client!.write\<close> on an absent client is a
  \<^verbatim>\<open>TypeError\<close>. An operation returns the error it threw, if any, and the state.\<close>

definition send :: "parser \<Rightarrow> string \<Rightarrow> EtherConn \<Rightarrow> error option \<times> EtherConn" where
  "send P sendcommand s =
     (case client s of
        None \<Rightarrow> (Some TypeError, s)
      | Some c \<Rightarrow> (None, popinputqueue P (s\<lparr>effects := effects s @ [Write sendcommand]\<rparr>)))"

text \<open>\<^verbatim>\<open>waitForResponse\<close>, lines 133 to 144; \<open>k\<close> is the code awaiting the promise.\<close>

definition waitForResponse :: "parser \<Rightarrow> nat \<Rightarrow> cont \<Rightarrow> EtherConn \<Rightarrow> EtherConn" where
  "waitForResponse P sz k s =
     popinputqueue P (s\<lparr>inputhandlerqueue := inputhandlerqueue s @ [(sz, k)]\<rparr>)"

text \<open>The two lines every command shares: \<^verbatim>\<open>this._send(cmd); await this.waitForResponse()\<close>,
  the function being suspended at frame \<open>f\<close> below its caller \<open>k\<close>.\<close>

definition send_await :: "parser \<Rightarrow> string \<Rightarrow> frame \<Rightarrow> cont \<Rightarrow> EtherConn \<Rightarrow> error option \<times> EtherConn" where
  "send_await P cmd f k s =
     (case send P cmd s of
        (Some e, s1) \<Rightarrow> (Some e, s1)
      | (None, s1) \<Rightarrow> (None, waitForResponse P STANDARD_RESPONSE_SIZE (f # k) s1))"

definition sendPrepare :: "parser \<Rightarrow> cont \<Rightarrow> EtherConn \<Rightarrow> error option \<times> EtherConn" where
  "sendPrepare P k s = send_await P ''p'' AfterPrepareResp k s"

text \<open>\<^verbatim>\<open>sendBegin\<close>, lines 164 to 174. \<^verbatim>\<open>!rate\<close> holds for \<^verbatim>\<open>undefined\<close> (the caller
  passes \<^verbatim>\<open>this.rate!\<close>) and for 0.\<close>

definition sendBegin :: "parser \<Rightarrow> int option \<Rightarrow> cont \<Rightarrow> EtherConn \<Rightarrow> error option \<times> EtherConn" where
  "sendBegin P rt k s =
     (case rt of
        None \<Rightarrow> (Some (Error ''Call streamFrames(rate, callback) first''), s)
      | Some r \<Rightarrow>
          if r = 0 then (Some (Error ''Call streamFrames(rate, callback) first''), s)
          else
            let lwm = 0;
                cmd = ''b'' @ writeUnsignedInt16 lwm @ writeUnsignedInt32 r
            in send_await P cmd AfterBeginResp k s)"

text \<open>\<^verbatim>\<open>sendUpdate\<close>, lines 176 to 183.\<close>

definition sendUpdate :: "parser \<Rightarrow> int \<Rightarrow> cont \<Rightarrow> EtherConn \<Rightarrow> error option \<times> EtherConn" where
  "sendUpdate P r k s =
     (let lwm = 0;
          cmd = ''u'' @ writeUnsignedInt16 lwm @ writeUnsignedInt32 r
      in send_await P cmd AfterUpdateResp k s)"

definition sendStop :: "parser \<Rightarrow> cont \<Rightarrow> EtherConn \<Rightarrow> error option \<times> EtherConn" where
  "sendStop P k s = send_await P ''s'' AfterStopResp k s"

definition sendEmergencyStop :: "parser \<Rightarrow> cont \<Rightarrow> EtherConn \<Rightarrow> error option \<times> EtherConn" where
  "sendEmergencyStop P k s = send_await P [char_of (255 :: nat)] AfterEmergencyStopResp k s"

definition sendPing :: "parser \<Rightarrow> cont \<Rightarrow> EtherConn \<Rightarrow> error option \<times> EtherConn" where
  "sendPing P k s = send_await P ''?'' AfterPingResp k s"

text \<open>\<^verbatim>\<open>sendPoints\<close> up to its first \<^verbatim>\<open>await\<close>, lines 202 to 219.\<close>

definition sendPoints :: "parser \<Rightarrow> IPoint list \<Rightarrow> cont \<Rightarrow> EtherConn \<Rightarrow> error option \<times> EtherConn" where
  "sendPoints P points k s = send_await P (sendPoints_cmd points) AfterPointsResp k s"

text \<open>\<^verbatim>\<open>streamFrames\<close>, lines 237 to 244.\<close>

definition streamFrames :: "int option \<Rightarrow> (nat \<Rightarrow> IPoint list) option \<Rightarrow> EtherConn \<Rightarrow> EtherConn" where
  "streamFrames rt cb s =
     (let s1 = (case rt of None \<Rightarrow> s | Some r \<Rightarrow> if r = 0 then s else s\<lparr>rate := Some r\<rparr>)
      in case cb of None \<Rightarrow> s1 | Some c \<Rightarrow> s1\<lparr>streamCallback := Some c\<rparr>)"

text \<open>\<^verbatim>\<open>close\<close>, lines 273 to 292.\<close>

definition close :: "EtherConn \<Rightarrow> EtherConn" where
  "close s =
     (let s1 = s\<lparr>inputqueue := [], inputhandlerqueue := [], timer := 0, acks := 0,
                 fullness := 0, points_in_buffer := 0, playback_state := 0,
                 playsent := False, beginsent := False, preparesent := False,
                 valid := True, running := False\<rparr>
      in case client s1 of
           None \<Rightarrow> s1
         | Some c \<Rightarrow> s1\<lparr>effects := effects s1 @ [Destroy], client := None\<rparr>)"

subsection \<open>The scheduler\<close>

text \<open>Lines 260 to 265 of \<^verbatim>\<open>run\<close>: the spare capacity, and what the loop does with it.
  \<open>run_capacity\<close> gives the pause to take, if any, and the capacity then used at line
  267; \<^verbatim>\<open>cap\<close> is a local variable, so adding 150 before or after the pause is the
  same.\<close>

definition spare_capacity :: "int \<Rightarrow> int" where
  "spare_capacity f = max 0 (MAX_FULLNESS - f)"

definition run_capacity :: "int \<Rightarrow> nat option \<times> int" where
  "run_capacity f =
     (let cap = spare_capacity f
      in if cap < 100 then (Some 5, cap + 150) else (None, cap))"

text \<open>Lines 267 and 268: \<^verbatim>\<open>frame.splice(0, cap)\<close> gives the first \<open>cap\<close> points.\<close>

definition run_points :: "parser \<Rightarrow> IPoint list \<Rightarrow> int \<Rightarrow> EtherConn \<Rightarrow> error option \<times> EtherConn" where
  "run_points P frm cap s = sendPoints P (take (nat cap) frm) [RunAfterPoints] s"

text \<open>Lines 260 to 268.\<close>

definition run_send :: "parser \<Rightarrow> IPoint list \<Rightarrow> EtherConn \<Rightarrow> error option \<times> EtherConn" where
  "run_send P frm s =
     (case run_capacity (fullness s) of
        (Some t, cap) \<Rightarrow> (None, s\<lparr>timers := timers s @ [(t, Resume [RunAfterDelay frm cap])]\<rparr>)
      | (None, cap) \<Rightarrow> run_points P frm cap s)"

text \<open>\<^verbatim>\<open>run\<close> up to its first \<^verbatim>\<open>await\<close>, lines 246 to 258. Nothing awaits \<^verbatim>\<open>run\<close>, so
  its frames are the bottom of their stack.\<close>

definition run :: "parser \<Rightarrow> EtherConn \<Rightarrow> error option \<times> EtherConn" where
  "run P s =
     (if \<not> running s then (None, s)
      else case streamCallback s of
        None \<Rightarrow> (None, s\<lparr>timers := timers s @ [(0, Resume [RunAfterDelay0])]\<rparr>)
      | Some cb \<Rightarrow>
          let frm = cb (pulls s);
              s1 = s\<lparr>pulls := Suc (pulls s)\<rparr>
          in if EtherConn.playback_state s1 = PLAYBACK_IDLE
             then sendPrepare P [RunAfterPrepare frm] s1
             else run_send P frm s1)"

text \<open>What becomes of a call that is awaited (or, for \<^verbatim>\<open>run\<close>, left alone) by code with
  no \<^verbatim>\<open>try\<close> around it: if it threw, the rejection abandons the frames \<open>fs\<close> that
  waited for it; otherwise those frames are parked with a handler or a timer.\<close>

fun settle :: "cont \<Rightarrow> error option \<times> EtherConn \<Rightarrow> EtherConn" where
  "settle fs (None, s) = s"
| "settle fs (Some e, s) = s\<lparr>effects := effects s @ [Rejected e fs]\<rparr>"

text \<open>Resuming one frame on top of the frames \<open>fs\<close>. The flag says whether the
  function returned, so that its caller \<open>fs\<close> goes on. (When an \<^verbatim>\<open>async\<close> function
  returns, the function awaiting it goes on in a later microtask of the same turn. The
  frames of one stack are resumed here one after the other: what one stack does keeps
  its order, and only the order between two stacks settled in the same turn is merged.)\<close>

fun frame_step :: "parser \<Rightarrow> frame \<Rightarrow> cont \<Rightarrow> EtherConn \<Rightarrow> bool \<times> EtherConn" where
  "frame_step P AfterPrepareResp fs s = (True, s\<lparr>preparesent := True\<rparr>)"
| "frame_step P AfterBeginResp fs s = (True, s\<lparr>beginsent := True\<rparr>)"
| "frame_step P AfterUpdateResp fs s = (True, s\<lparr>beginsent := True\<rparr>)"
| "frame_step P AfterStopResp fs s = (True, s)"
| "frame_step P AfterEmergencyStopResp fs s = (True, s)"
| "frame_step P AfterPingResp fs s = (True, s)"
| "frame_step P AfterPointsResp fs s =
     (if valid s then
        if \<not> beginsent s
        then (False, settle fs (sendBegin P (rate s) (AfterPointsBegin # fs) s))
        else (True, s)
      else (True, s))"
| "frame_step P AfterPointsBegin fs s = (True, s)"
| "frame_step P (RunAfterPrepare frm) fs s = (False, settle fs (run_send P frm s))"
| "frame_step P (RunAfterDelay frm cap) fs s = (False, settle fs (run_points P frm cap s))"
| "frame_step P RunAfterPoints fs s = (True, settle [] (run P s))"
| "frame_step P RunAfterDelay0 fs s = (True, settle [] (run P s))"
| "frame_step P ConnectThen fs s = (True, s)"
| "frame_step P (External n) fs s = (True, s\<lparr>effects := effects s @ [Resolved n]\<rparr>)"

fun resume :: "parser \<Rightarrow> cont \<Rightarrow> EtherConn \<Rightarrow> EtherConn" where
  "resume P [] s = s"
| "resume P (f # fs) s =
     (case frame_step P f fs s of
        (True, s1) \<Rightarrow> resume P fs s1
      | (False, s1) \<Rightarrow> s1)"

text \<open>\<^verbatim>\<open>connect\<close>, lines 69 to 81: the address is kept, the socket is made, and the
  caller \<open>k\<close> awaits the promise. The listeners of lines 82 to 121 are the events
  below.\<close>

definition connect :: "string \<Rightarrow> int \<Rightarrow> cont \<Rightarrow> EtherConn \<Rightarrow> EtherConn" where
  "connect host prt k s =
     (let s1 = s\<lparr>ip := Some host\<rparr>;
          s2 = s1\<lparr>port := Some prt\<rparr>
      in s2\<lparr>client := Some (Socket host prt), connecting := Some k\<rparr>)"

text \<open>The callback of \<^verbatim>\<open>net.connect\<close>, lines 82 to 97, called once when the socket
  has connected: it waits for the response the device sends by itself, runs
  \<^verbatim>\<open>_popinputqueue\<close>, and starts the scheduler.\<close>

definition on_connect :: "parser \<Rightarrow> EtherConn \<Rightarrow> EtherConn" where
  "on_connect P s =
     (case connecting s of
        None \<Rightarrow> s
      | Some k \<Rightarrow>
          let s0 = s\<lparr>connecting := None\<rparr>;
              s1 = waitForResponse P STANDARD_RESPONSE_SIZE (ConnectThen # k) s0;
              s2 = popinputqueue P s1;
              s3 = s2\<lparr>running := True\<rparr>
          in settle [] (run P s3))"

subsection \<open>The microtask queue\<close>

text \<open>After each piece of synchronous code the microtask queue is run until it is empty:
  the oldest settled continuation resumes first. This terminates, because a resumed
  continuation either consumes inbound bytes or leaves fewer settled continuations and
  zero-sized handlers behind: every handler the class itself queues asks for 22 bytes.\<close>

definition zero_handlers :: "EtherConn \<Rightarrow> nat" where
  "zero_handlers s = length (filter (\<lambda>h. fst h = 0) (inputhandlerqueue s))"

definition shrinks :: "EtherConn \<Rightarrow> EtherConn \<Rightarrow> bool" where
  "shrinks s' s \<longleftrightarrow>
     length (inputqueue s') < length (inputqueue s) \<or>
     (length (inputqueue s') = length (inputqueue s) \<and>
      zero_handlers s' + length (microtasks s') \<le> zero_handlers s + length (microtasks s))"

lemma shrinks_refl: "shrinks s s" by (simp add: shrinks_def)

lemma shrinks_trans: "shrinks s2 s1 \<Longrightarrow> shrinks s1 s0 \<Longrightarrow> shrinks s2 s0"
  by (auto simp: shrinks_def)

lemma shrinks_same:
  "inputqueue s' = inputqueue s \<Longrightarrow> inputhandlerqueue s' = inputhandlerqueue s \<Longrightarrow>
   microtasks s' = microtasks s \<Longrightarrow> shrinks s' s"
  by (simp add: shrinks_def zero_handlers_def)

lemma handle_queues [simp]:
  "inputqueue (handleStandardResponse d s) = inputqueue s"
  "inputhandlerqueue (handleStandardResponse d s) = inputhandlerqueue s"
  "microtasks (handleStandardResponse d s) = microtasks s"
  by (simp_all add: handleStandardResponse_def Let_def)

lemma pop_shrinks: "shrinks (popinputqueue P s) s"
  by (auto simp: popinputqueue_def callback_def Let_def shrinks_def zero_handlers_def
      split: list.splits)

lemma wait_shrinks: "sz \<noteq> 0 \<Longrightarrow> shrinks (waitForResponse P sz k s) s"
  unfolding waitForResponse_def
  by (rule shrinks_trans [OF pop_shrinks]) (simp add: shrinks_def zero_handlers_def)

lemma send_shrinks: "shrinks (snd (send P c s)) s"
  unfolding send_def
  by (auto split: option.splits intro!: shrinks_refl shrinks_trans [OF pop_shrinks] shrinks_same)

lemma send_await_shrinks: "shrinks (snd (send_await P c f k s)) s"
  unfolding send_await_def using send_shrinks [of P c s]
  by (auto split: prod.splits option.splits simp: STANDARD_RESPONSE_SIZE_def
      intro: shrinks_trans [OF wait_shrinks])

lemma sendBegin_shrinks: "shrinks (snd (sendBegin P rt k s)) s"
  unfolding sendBegin_def Let_def
  by (auto split: option.splits intro: shrinks_refl send_await_shrinks)

lemma run_points_shrinks: "shrinks (snd (run_points P frm cap s)) s"
  unfolding run_points_def sendPoints_def by (rule send_await_shrinks)

lemma run_send_shrinks: "shrinks (snd (run_send P frm s)) s"
  unfolding run_send_def
  by (auto split: prod.splits option.splits intro: shrinks_same run_points_shrinks)

lemma run_shrinks: "shrinks (snd (run P s)) s"
proof -
  have pull: "shrinks (s\<lparr>pulls := Suc (pulls s)\<rparr>) s"
    by (rule shrinks_same) simp_all
  show ?thesis
    unfolding run_def Let_def sendPrepare_def
    by (auto split: option.splits
        intro: shrinks_refl shrinks_same
          shrinks_trans [OF send_await_shrinks pull] shrinks_trans [OF run_send_shrinks pull])
qed

lemma settle_shrinks: "shrinks (snd r) s \<Longrightarrow> shrinks (settle fs r) s"
  by (cases r; cases "fst r") (auto simp: shrinks_def zero_handlers_def)

lemma frame_step_shrinks: "shrinks (snd (frame_step P f fs s)) s"
  by (cases f)
    (auto intro: shrinks_refl shrinks_same settle_shrinks sendBegin_shrinks
      run_send_shrinks run_points_shrinks run_shrinks)

lemma resume_shrinks: "shrinks (resume P k s) s"
proof (induction k arbitrary: s)
  case Nil
  show ?case by (simp add: shrinks_refl)
next
  case (Cons f fs)
  obtain b s1 where st: "frame_step P f fs s = (b, s1)"
    by (cases "frame_step P f fs s")
  have s1: "shrinks s1 s"
    using frame_step_shrinks [of P f fs s] st by simp
  show ?case
  proof (cases b)
    case True
    have "shrinks (resume P fs s1) s"
      by (rule shrinks_trans [OF Cons.IH s1])
    with st True show ?thesis by simp
  next
    case False
    with st s1 show ?thesis by simp
  qed
qed

function drain :: "parser \<Rightarrow> EtherConn \<Rightarrow> EtherConn" where
  "drain P s =
     (case microtasks s of
        [] \<Rightarrow> s
      | k # ks \<Rightarrow> drain P (resume P k (s\<lparr>microtasks := ks\<rparr>)))"
  by pat_completeness auto
termination
proof (relation "measures [\<lambda>(P, s). length (inputqueue s),
    \<lambda>(P, s). zero_handlers s + length (microtasks s)]")
  show "wf (measures [\<lambda>(P :: parser, s). length (inputqueue s),
    \<lambda>(P, s). zero_handlers s + length (microtasks s)])"
    by simp
next
  fix P :: parser and s :: EtherConn and k ks
  assume "microtasks s = k # ks"
  then show "((P, resume P k (s\<lparr>microtasks := ks\<rparr>)), (P, s)) \<in>
    measures [\<lambda>(P, s). length (inputqueue s),
      \<lambda>(P, s). zero_handlers s + length (microtasks s)]"
    using resume_shrinks [of P k "s\<lparr>microtasks := ks\<rparr>"]
    by (auto simp: shrinks_def zero_handlers_def)
qed

declare drain.simps [simp del]

subsection \<open>Events from outside\<close>

text \<open>The \<^verbatim>\<open>data\<close> listener of the socket, lines 100 to 110: the bytes are pushed onto
  the inbound queue and one call of \<^verbatim>\<open>_popinputqueue\<close> is scheduled with
  \<^verbatim>\<open>setTimeout(..., 0)\<close>.\<close>

definition on_data :: "byte list \<Rightarrow> EtherConn \<Rightarrow> EtherConn" where
  "on_data bs s =
     (let s1 = s\<lparr>inputqueue := inputqueue s @ bs\<rparr>
      in s1\<lparr>timers := timers s1 @ [(0, PopInput)]\<rparr>)"

text \<open>The \<open>i\<close>-th pending timer fires: the scheduled call of \<^verbatim>\<open>_popinputqueue\<close> runs,
  or the promise of \<^verbatim>\<open>delay\<close> resolves.\<close>

definition on_timeout :: "parser \<Rightarrow> nat \<Rightarrow> EtherConn \<Rightarrow> EtherConn" where
  "on_timeout P i s =
     (if i < length (timers s) then
        let s1 = s\<lparr>timers := take i (timers s) @ drop (Suc i) (timers s)\<rparr>
        in case snd (timers s ! i) of
             PopInput \<Rightarrow> popinputqueue P s1
           | Resume k \<Rightarrow> s1\<lparr>microtasks := microtasks s1 @ [k]\<rparr>
      else s)"

datatype event = ConnectEvent | DataEvent "byte list" | TimeoutEvent nat

text \<open>One turn of the event loop: the event's callback, then the microtasks.\<close>

fun turn :: "parser \<Rightarrow> event \<Rightarrow> EtherConn \<Rightarrow> EtherConn" where
  "turn P ConnectEvent s = drain P (on_connect P s)"
| "turn P (DataEvent bs) s = drain P (on_data bs s)"
| "turn P (TimeoutEvent i) s = drain P (on_timeout P i s)"

declare turn.simps [simp del]

text \<open>A response of the device arrives in one piece, and the call of
  \<^verbatim>\<open>_popinputqueue\<close> that the listener scheduled for it is the next timer to fire.\<close>

definition respond :: "parser \<Rightarrow> byte list \<Rightarrow> EtherConn \<Rightarrow> EtherConn" where
  "respond P resp s = turn P (TimeoutEvent (length (timers s))) (turn P (DataEvent resp) s)"

text \<open>No request is outstanding: nothing is queued, inbound or pending, and no settled
  continuation waits (as between any two turns of the event loop).\<close>

definition quiet :: "EtherConn \<Rightarrow> bool" where
  "quiet s \<longleftrightarrow> inputqueue s = [] \<and> inputhandlerqueue s = [] \<and> microtasks s = []"

text \<open>A sequence of events, one turn of the event loop each, and the bytes that its
  data events bring.\<close>

fun events :: "parser \<Rightarrow> event list \<Rightarrow> EtherConn \<Rightarrow> EtherConn" where
  "events P [] s = s"
| "events P (e # es) s = events P es (turn P e s)"

fun inbound :: "event list \<Rightarrow> byte list" where
  "inbound [] = []"
| "inbound (DataEvent bs # es) = bs @ inbound es"
| "inbound (e # es) = inbound es"

text \<open>The frames that return to their caller without calling into the class again:
  all but the frame of \<^verbatim>\<open>sendPoints\<close> that may call \<^verbatim>\<open>sendBegin\<close> and the frames of
  \<^verbatim>\<open>run\<close>.\<close>

fun silent :: "frame \<Rightarrow> bool" where
  "silent AfterPointsResp = False"
| "silent (RunAfterPrepare frm) = False"
| "silent (RunAfterDelay frm cap) = False"
| "silent RunAfterPoints = False"
| "silent RunAfterDelay0 = False"
| "silent f = True"

text \<open>The handler callbacks invoked so far, oldest first, each with its bytes.\<close>

fun invocations :: "effect list \<Rightarrow> (cont \<times> byte list) list" where
  "invocations [] = []"
| "invocations (Invoked k bs # es) = (k, bs) # invocations es"
| "invocations (e # es) = invocations es"

text \<open>What the queued handlers are due, in the words of the spec: each entry in turn
  takes its byte count from the front of the bytes.\<close>

fun due :: "(nat \<times> cont) list \<Rightarrow> byte list \<Rightarrow> (cont \<times> byte list) list" where
  "due [] bs = []"
| "due (h # hs) bs = (snd h, take (fst h) bs) # due hs (drop (fst h) bs)"

section \<open>Path drawing (Path.ts)\<close>

text \<open>The commands of a path as the library \<^verbatim>\<open>svg-pathdata\<close> (outside this repository)
  parses them: the type of the command and the coordinates it carries, taken here as
  absolute and scaled already. The switch of lines 63 to 142 has no case for the
  remaining types (quadratic curves, arcs), which are one constructor here.\<close>

datatype 'n command =
    MOVE_TO 'n 'n
  | HORIZ_LINE_TO 'n
  | VERT_LINE_TO 'n
  | LINE_TO 'n 'n
  | CURVE_TO 'n 'n 'n 'n 'n 'n
  | SMOOTH_CURVE_TO 'n 'n 'n 'n
  | CLOSE_PATH
  | OTHER_COMMAND

text \<open>\<^verbatim>\<open>Point\<close>, \<^verbatim>\<open>Line\<close> and \<^verbatim>\<open>Curve\<close> are imported from files that are not among
  the sources: what they construct and draw is a parameter. A line goes from a point to
  a point; a curve goes from a point with its control point to a point with its control
  point; both take the color and the resolution.\<close>

record ('n, 'c, 'p) shapes =
  new_Point :: "'n \<Rightarrow> 'n \<Rightarrow> 'p"
  Line_draw :: "'n \<times> 'n \<Rightarrow> 'n \<times> 'n \<Rightarrow> 'c \<Rightarrow> 'n \<Rightarrow> 'p list"
  Curve_draw :: "('n \<times> 'n) \<times> ('n \<times> 'n) \<Rightarrow> ('n \<times> 'n) \<times> ('n \<times> 'n) \<Rightarrow> 'c \<Rightarrow> 'n \<Rightarrow> 'p list"

text \<open>The variables of lines 54 to 58. Of the last move command only \<^verbatim>\<open>x\<close> and
  \<^verbatim>\<open>y\<close> are ever read, of the last curve command only \<^verbatim>\<open>x2\<close> and \<^verbatim>\<open>y2\<close>.\<close>

record 'n pen =
  lastMoveCommand :: "('n \<times> 'n) option"
  lastCurveCommand :: "('n \<times> 'n) option"
  prevX :: 'n
  prevY :: 'n

definition smooth_curve_error :: error where
  "smooth_curve_error =
     Error ''Path parsing error: smooth curve command called without a prior curve command.''"

definition close_path_error :: error where
  "close_path_error =
     Error ''Path parsing error: close path command called without a prior move command.''"

text \<open>Line 39, \<^verbatim>\<open>new SVGPathData(this.path).toAbs()\<close>. The library walks the commands
  from the first one and throws \<^verbatim>\<open>path must start with moveto\<close> when it meets a
  command before any move command, that is, when the first command of a path is not a
  move command. Of what the library does, that throw is what the model keeps.\<close>

definition moveto_error :: error where
  "moveto_error = Error ''path must start with moveto''"

fun is_move :: "'n command \<Rightarrow> bool" where
  "is_move (MOVE_TO x y) = True"
| "is_move c = False"

fun toAbs :: "'n command list \<Rightarrow> error + 'n command list" where
  "toAbs [] = Inr []"
| "toAbs (c # cs) = (if is_move c then Inr (c # cs) else Inl moveto_error)"

text \<open>One round of the callback of \<^verbatim>\<open>pathData.commands.map\<close>, lines 60 to 145: the
  points of the command and the variables after it, or the error thrown.\<close>

fun draw_command ::
  "('n, 'c, 'p) shapes \<Rightarrow> 'c \<Rightarrow> 'n \<Rightarrow> 'n pen \<Rightarrow> 'n command \<Rightarrow> error + ('p list \<times> 'n pen)" where
  "draw_command C col res st (MOVE_TO x y) =
     Inr ([new_Point C x y], st\<lparr>lastMoveCommand := Some (x, y), prevX := x, prevY := y\<rparr>)"
| "draw_command C col res st (HORIZ_LINE_TO x) =
     (let toX = x; toY = prevY st
      in Inr (Line_draw C (prevX st, prevY st) (toX, toY) col res,
              st\<lparr>prevX := toX, prevY := toY\<rparr>))"
| "draw_command C col res st (VERT_LINE_TO y) =
     (let toX = prevX st; toY = y
      in Inr (Line_draw C (prevX st, prevY st) (toX, toY) col res,
              st\<lparr>prevX := toX, prevY := toY\<rparr>))"
| "draw_command C col res st (LINE_TO x y) =
     (let toX = x; toY = y
      in Inr (Line_draw C (prevX st, prevY st) (toX, toY) col res,
              st\<lparr>prevX := toX, prevY := toY\<rparr>))"
| "draw_command C col res st (CURVE_TO x1 y1 x2 y2 x y) =
     Inr (Curve_draw C ((prevX st, prevY st), (x1, y1)) ((x, y), (x2, y2)) col res,
          st\<lparr>prevX := x, prevY := y, lastCurveCommand := Some (x2, y2)\<rparr>)"
| "draw_command C col res st (SMOOTH_CURVE_TO x2 y2 x y) =
     (case lastCurveCommand st of
        None \<Rightarrow> Inl smooth_curve_error
      | Some ctl \<Rightarrow>
          Inr (Curve_draw C ((prevX st, prevY st), ctl) ((x, y), (x2, y2)) col res,
               st\<lparr>prevX := x, prevY := y, lastCurveCommand := Some (x2, y2)\<rparr>))"
| "draw_command C col res st CLOSE_PATH =
     (case lastMoveCommand st of
        None \<Rightarrow> Inl close_path_error
      | Some mv \<Rightarrow>
          Inr (Line_draw C (prevX st, prevY st) mv col res,
               st\<lparr>prevX := fst mv, prevY := snd mv\<rparr>))"
| "draw_command C col res st OTHER_COMMAND = Inr ([], st)"

text \<open>The \<^verbatim>\<open>map\<close> over the commands: an error thrown by the callback ends it.\<close>

fun draw_commands ::
  "('n, 'c, 'p) shapes \<Rightarrow> 'c \<Rightarrow> 'n \<Rightarrow> 'n pen \<Rightarrow> 'n command list \<Rightarrow> error + 'p list list" where
  "draw_commands C col res st [] = Inr []"
| "draw_commands C col res st (c # cs) =
     (case draw_command C col res st c of
        Inl e \<Rightarrow> Inl e
      | Inr (commandPoints, st') \<Rightarrow>
          (case draw_commands C col res st' cs of
             Inl e \<Rightarrow> Inl e
           | Inr rest \<Rightarrow> Inr (commandPoints # rest)))"

text \<open>\<^verbatim>\<open>Path.draw\<close>, lines 38 to 149, on the commands of the path.\<close>

definition draw ::
  "('n :: zero, 'c, 'p) shapes \<Rightarrow> 'c \<Rightarrow> 'n \<Rightarrow> 'n command list \<Rightarrow> error + 'p list" where
  "draw C col res path =
     (case toAbs path of
        Inl e \<Rightarrow> Inl e
      | Inr commands \<Rightarrow>
          if commands = [] then Inr []
          else
            case draw_commands C col res
                \<lparr>lastMoveCommand = None, lastCurveCommand = None, prevX = 0, prevY = 0\<rparr>
                commands of
              Inl e \<Rightarrow> Inl e
            | Inr points \<Rightarrow> Inr (concat points))"

text \<open>A curve command, the only one that can come first among the commands that set
  \<^verbatim>\<open>lastCurveCommand\<close>.\<close>

fun is_curve :: "'n command \<Rightarrow> bool" where
  "is_curve (CURVE_TO x1 y1 x2 y2 x y) = True"
| "is_curve c = False"

text \<open>The path starts with a move command.\<close>

fun moveto_first :: "'n command list \<Rightarrow> bool" where
  "moveto_first [] = False"
| "moveto_first (c # cs) = is_move c"

section \<open>Data for the examples\<close>

text \<open>The underrun flag in the words of the spec: the bit of value 2 of the playback
  flags.\<close>

definition underrun_bit_set :: "int \<Rightarrow> bool" where
  "underrun_bit_set flags \<longleftrightarrow> (flags div 2) mod 2 = 1"

text \<open>A decoder to put in the place of \<open>P\<close> in the closed examples. It reads the
  response code from byte 0 and takes the status fields from the places the device's
  published protocol header gives them (playback state at byte 4, playback flags at
  bytes 8 and 9, buffer fullness at bytes 12 and 13, little-endian).\<close>

definition byte_at :: "byte list \<Rightarrow> nat \<Rightarrow> int" where
  "byte_at bs i = (if i < length bs then uint (bs ! i) else 0)"

definition example_parser :: parser where
  "example_parser bs =
     \<lparr>response = [char_of (byte_at bs 0)],
      status = \<lparr>buffer_fullness = byte_at bs 12 + 2 ^ 8 * byte_at bs 13,
                dac_status.playback_state = byte_at bs 4,
                playback_flags = byte_at bs 8 + 2 ^ 8 * byte_at bs 9\<rparr>\<rparr>"

text \<open>Two 22-byte responses, with a status that is zero throughout: one with the code
  \<open>a\<close> (97), one with the code \<open>I\<close> (73).\<close>

definition ack_frame :: "byte list" where
  "ack_frame = 97 # 63 # replicate 20 0"

definition nak_frame :: "byte list" where
  "nak_frame = 73 # 63 # replicate 20 0"

text \<open>An acknowledged 22-byte response of a playing device (playback state 2) whose
  playback flags are 3: the bit of value 1 and the bit of value 2.\<close>

definition underrun_frame :: "byte list" where
  "underrun_frame = 97 # 63 # 0 # 0 # 2 # 0 # 0 # 0 # 3 # 0 # replicate 12 0"

text \<open>An acknowledged 22-byte response of a playing device whose buffer fullness is 1799
  (bytes 12 and 13 are 7 and 7).\<close>

definition full_frame :: "byte list" where
  "full_frame = 97 # 63 # 0 # 0 # 2 # 0 # 0 # 0 # 0 # 0 # 0 # 0 # 7 # 7 # replicate 8 0"

text \<open>A sample source that always has the same three points.\<close>

definition example_frame :: "IPoint list" where
  "example_frame =
     [\<lparr>point_x = 0, point_y = 0, point_r = 65535, point_g = 0, point_b = 0,
       point_control = None, point_i = None, point_u1 = None, point_u2 = None\<rparr>,
      \<lparr>point_x = 1000, point_y = - 1000, point_r = 0, point_g = 65535, point_b = 0,
       point_control = None, point_i = None, point_u1 = None, point_u2 = None\<rparr>,
      \<lparr>point_x = - 1000, point_y = 1000, point_r = 0, point_g = 0, point_b = 65535,
       point_control = None, point_i = None, point_u1 = None, point_u2 = None\<rparr>]"

definition example_source :: "nat \<Rightarrow> IPoint list" where
  "example_source n = example_frame"

text \<open>A fresh object is connected by outside code (caller 0), and the device's first
  response arrives: \<open>connected\<close>. The scheduler polls for a sample source with a timer.
  Then \<^verbatim>\<open>streamFrames(30000, source)\<close> is called: \<open>polling\<close>.\<close>

definition connected :: EtherConn where
  "connected =
     respond example_parser ack_frame
       (turn example_parser ConnectEvent (connect ''192.168.1.10'' 7765 [External 0] fresh))"

definition polling :: EtherConn where
  "polling = streamFrames (Some 30000) (Some example_source) connected"

text \<open>On the object \<open>polling\<close> outside code (caller 1) calls \<^verbatim>\<open>sendPing\<close>, and the
  device answers that its buffer is full: \<open>full\<close>.\<close>

definition full :: EtherConn where
  "full =
     respond example_parser full_frame
       (drain example_parser (snd (sendPing example_parser [External 1] polling)))"

text \<open>On the connected object outside code (caller 1) calls \<^verbatim>\<open>sendBegin(30000)\<close>, and
  the response arrives: \<open>begun\<close>.\<close>

definition begun :: EtherConn where
  "begun =
     respond example_parser ack_frame
       (drain example_parser (snd (sendBegin example_parser (Some 30000) [External 1] connected)))"

text \<open>\<^verbatim>\<open>streamFrames(30000, source)\<close> is called on a fresh object before it is connected.
  When the socket connects, \<^verbatim>\<open>connect\<close> waits for the device's first response and the
  scheduler, started at once, sends \<open>p\<close> and waits for the response to it: two
  entries are queued.\<close>

definition two_waiting :: EtherConn where
  "two_waiting =
     turn example_parser ConnectEvent
       (connect ''192.168.1.10'' 7765 [External 0]
          (streamFrames (Some 30000) (Some example_source) fresh))"

text \<open>Shapes on integer coordinates that draw their end points only.\<close>

definition example_shapes :: "(int, unit, int \<times> int) shapes" where
  "example_shapes =
     \<lparr>new_Point = (\<lambda>x y. (x, y)),
      Line_draw = (\<lambda>a b col res. [a, b]),
      Curve_draw = (\<lambda>a b col res. [fst a, fst b])\<rparr>"

section \<open>Vocabulary of the proofs\<close>

text \<open>The state after a command was sent on a quiet session, and the state in which
  the continuation \<open>k\<close> of the only queued handler resumes once the response is in.\<close>

definition sent :: "string \<Rightarrow> cont \<Rightarrow> EtherConn \<Rightarrow> EtherConn" where
  "sent cmd k s =
     s\<lparr>effects := effects s @ [Write cmd],
       inputhandlerqueue := [(STANDARD_RESPONSE_SIZE, k)]\<rparr>"

definition delivered :: "parser \<Rightarrow> cont \<Rightarrow> byte list \<Rightarrow> EtherConn \<Rightarrow> EtherConn" where
  "delivered P k resp s =
     handleStandardResponse (P resp)
       (s\<lparr>inputqueue := [], inputhandlerqueue := [],
          effects := effects s @ [Invoked k resp]\<rparr>)"

text \<open>The begin command on the wire.\<close>

definition begin_cmd :: "int \<Rightarrow> string" where
  "begin_cmd r = ''b'' @ writeUnsignedInt16 0 @ writeUnsignedInt32 r"

text \<open>The handlers invoked so far, then what the queued ones are still due once the
  bytes \<open>future\<close> have arrived too: no step of the demultiplexer changes it.\<close>

definition ledger :: "EtherConn \<Rightarrow> byte list \<Rightarrow> (cont \<times> byte list) list" where
  "ledger s future =
     invocations (effects s) @ due (inputhandlerqueue s) (inputqueue s @ future)"

text \<open>Whatever bytes are still to come, the ledger of \<open>s'\<close> is the ledger of \<open>s\<close>
  with entries added at its end.\<close>

definition extends :: "EtherConn \<Rightarrow> EtherConn \<Rightarrow> bool" where
  "extends s' s \<longleftrightarrow> (\<forall>future. \<exists>later. ledger s' future = ledger s future @ later)"

text \<open>The trace of \<open>s'\<close> extends the trace of \<open>s\<close>: no operation removes an
  entry of it.\<close>

definition grows :: "EtherConn \<Rightarrow> EtherConn \<Rightarrow> bool" where
  "grows s' s \<longleftrightarrow> (\<exists>es. effects s' = effects s @ es)"

section \<open>Properties\<close>

subsection \<open>Running the model\<close>

lemma drain_idle: "microtasks s = [] \<Longrightarrow> drain P s = s"
  by (subst drain.simps) simp

lemma drain_next:
  "microtasks s = k # ks \<Longrightarrow> drain P s = drain P (resume P k (s\<lparr>microtasks := ks\<rparr>))"
  by (subst drain.simps) simp

lemma sent_fields [simp]:
  "client (sent cmd k s) = client s"
  "inputqueue (sent cmd k s) = inputqueue s"
  "inputhandlerqueue (sent cmd k s) = [(STANDARD_RESPONSE_SIZE, k)]"
  "timers (sent cmd k s) = timers s"
  "microtasks (sent cmd k s) = microtasks s"
  "effects (sent cmd k s) = effects s @ [Write cmd]"
  "rate (sent cmd k s) = rate s"
  "running (sent cmd k s) = running s"
  "streamCallback (sent cmd k s) = streamCallback s"
  "pulls (sent cmd k s) = pulls s"
  "valid (sent cmd k s) = valid s"
  "fullness (sent cmd k s) = fullness s"
  "EtherConn.playback_state (sent cmd k s) = EtherConn.playback_state s"
  "beginsent (sent cmd k s) = beginsent s"
  "preparesent (sent cmd k s) = preparesent s"
  by (simp_all add: sent_def)

lemma delivered_fields [simp]:
  "client (delivered P k resp s) = client s"
  "inputqueue (delivered P k resp s) = []"
  "inputhandlerqueue (delivered P k resp s) = []"
  "timers (delivered P k resp s) = timers s"
  "microtasks (delivered P k resp s) = microtasks s"
  "effects (delivered P k resp s) = effects s @ [Invoked k resp]"
  "rate (delivered P k resp s) = rate s"
  "running (delivered P k resp s) = running s"
  "streamCallback (delivered P k resp s) = streamCallback s"
  "pulls (delivered P k resp s) = pulls s"
  "valid (delivered P k resp s) = (response (P resp) = ''a'')"
  "fullness (delivered P k resp s) = buffer_fullness (status (P resp))"
  "EtherConn.playback_state (delivered P k resp s) = dac_status.playback_state (status (P resp))"
  "beginsent (delivered P k resp s) = (beginsent s \<and> playback_flags (status (P resp)) \<noteq> 2)"
  by (simp_all add: delivered_def handleStandardResponse_def Let_def)

lemma send_await_quiet:
  "client s = Some c \<Longrightarrow> quiet s \<Longrightarrow> send_await P cmd f k s = (None, sent cmd (f # k) s)"
  by (simp add: quiet_def sent_def send_await_def send_def waitForResponse_def
      popinputqueue_def STANDARD_RESPONSE_SIZE_def)

lemma deliver:
  assumes "inputhandlerqueue s = [(STANDARD_RESPONSE_SIZE, k)]" "inputqueue s = []"
    "microtasks s = []" "length resp = 22"
  shows "respond P resp s = drain P (resume P k (delivered P k resp s))"
proof -
  let ?s1 = "s\<lparr>inputqueue := resp, timers := timers s @ [(0, PopInput)]\<rparr>"
  have d: "turn P (DataEvent resp) s = ?s1"
    using assms by (simp add: turn.simps on_data_def drain_idle)
  have t: "on_timeout P (length (timers s)) ?s1 = (delivered P k resp s)\<lparr>microtasks := [k]\<rparr>"
    using assms
    by (simp add: on_timeout_def popinputqueue_def callback_def delivered_def Let_def
        STANDARD_RESPONSE_SIZE_def handleStandardResponse_def)
  have e: "(delivered P k resp s)\<lparr>microtasks := [k], microtasks := []\<rparr> = delivered P k resp s"
    using assms by (simp add: delivered_def handleStandardResponse_def Let_def)
  have "respond P resp s = drain P (on_timeout P (length (timers s)) ?s1)"
    unfolding respond_def d by (simp only: turn.simps)
  also have "\<dots> = drain P ((delivered P k resp s)\<lparr>microtasks := [k]\<rparr>)"
    by (simp only: t)
  also have "\<dots> = drain P (resume P k
      ((delivered P k resp s)\<lparr>microtasks := [k], microtasks := []\<rparr>))"
    by (rule drain_next) simp
  also have "\<dots> = drain P (resume P k (delivered P k resp s))"
    by (simp only: e)
  finally show ?thesis .
qed

lemma respond_sent:
  "quiet s \<Longrightarrow> length resp = 22 \<Longrightarrow>
   respond P resp (sent cmd k s) = drain P (resume P k (delivered P k resp (sent cmd k s)))"
  by (rule deliver) (simp_all add: quiet_def)

lemma sendBegin_quiet:
  "client s = Some c \<Longrightarrow> quiet s \<Longrightarrow> r \<noteq> 0 \<Longrightarrow>
   sendBegin P (Some r) k s = (None, sent (begin_cmd r) (AfterBeginResp # k) s)"
  by (simp add: sendBegin_def Let_def begin_cmd_def send_await_quiet [where c = c])

lemma sendPoints_quiet:
  "client s = Some c \<Longrightarrow> quiet s \<Longrightarrow>
   sendPoints P pts k s = (None, sent (sendPoints_cmd pts) (AfterPointsResp # k) s)"
  by (simp add: sendPoints_def send_await_quiet [where c = c])

lemma sendPoints_drained:
  "client s = Some c \<Longrightarrow> quiet s \<Longrightarrow>
   drain P (snd (sendPoints P pts k s)) = sent (sendPoints_cmd pts) (AfterPointsResp # k) s"
  by (simp add: sendPoints_quiet [where c = c] drain_idle quiet_def)

lemma sendBegin_drained:
  "client s = Some c \<Longrightarrow> quiet s \<Longrightarrow> r \<noteq> 0 \<Longrightarrow>
   drain P (snd (sendBegin P (Some r) k s)) = sent (begin_cmd r) (AfterBeginResp # k) s"
  by (simp add: sendBegin_quiet [where c = c] drain_idle quiet_def)

lemma sendPrepare_quiet:
  "client s = Some c \<Longrightarrow> quiet s \<Longrightarrow>
   sendPrepare P k s = (None, sent ''p'' (AfterPrepareResp # k) s)"
  by (simp add: sendPrepare_def send_await_quiet [where c = c])

text \<open>The examples, computed.\<close>

lemma length_frames [simp]:
  "length ack_frame = 22" "length nak_frame = 22" "length underrun_frame = 22"
  by (simp_all add: ack_frame_def nak_frame_def underrun_frame_def)

lemma parse_frames [simp]:
  "example_parser ack_frame =
     \<lparr>response = ''a'',
      status = \<lparr>buffer_fullness = 0, dac_status.playback_state = 0, playback_flags = 0\<rparr>\<rparr>"
  "example_parser nak_frame =
     \<lparr>response = ''I'',
      status = \<lparr>buffer_fullness = 0, dac_status.playback_state = 0, playback_flags = 0\<rparr>\<rparr>"
  by (simp_all add: example_parser_def ack_frame_def nak_frame_def byte_at_def nth_Cons'
      char_of_def)

lemma parse_underrun_frame [simp]:
  "example_parser underrun_frame =
     \<lparr>response = ''a'',
      status = \<lparr>buffer_fullness = 0, dac_status.playback_state = 2, playback_flags = 3\<rparr>\<rparr>"
  by (simp add: example_parser_def underrun_frame_def byte_at_def nth_Cons' char_of_def)

lemma connected_eq:
  "connected = fresh\<lparr>client := Some (Socket ''192.168.1.10'' 7765), running := True,
     ip := Some ''192.168.1.10'', port := Some 7765,
     timers := [(0, Resume [RunAfterDelay0])],
     effects := [Invoked [ConnectThen, External 0] ack_frame, Resolved 0]\<rparr>"
proof -
  let ?h = "fresh\<lparr>client := Some (Socket ''192.168.1.10'' 7765), running := True,
     ip := Some ''192.168.1.10'', port := Some 7765,
     timers := [(0, Resume [RunAfterDelay0])],
     inputhandlerqueue := [(STANDARD_RESPONSE_SIZE, [ConnectThen, External 0])]\<rparr>"
  have h: "turn example_parser ConnectEvent (connect ''192.168.1.10'' 7765 [External 0] fresh) = ?h"
    by (simp add: turn.simps on_connect_def connect_def fresh_def waitForResponse_def
        popinputqueue_def run_def STANDARD_RESPONSE_SIZE_def drain_idle Let_def)
  have "respond example_parser ack_frame ?h =
      drain example_parser (resume example_parser [ConnectThen, External 0]
        (delivered example_parser [ConnectThen, External 0] ack_frame ?h))"
    by (rule deliver) (simp_all add: fresh_def)
  also have "\<dots> = fresh\<lparr>client := Some (Socket ''192.168.1.10'' 7765), running := True,
     ip := Some ''192.168.1.10'', port := Some 7765,
     timers := [(0, Resume [RunAfterDelay0])],
     effects := [Invoked [ConnectThen, External 0] ack_frame, Resolved 0]\<rparr>"
    by (simp add: delivered_def handleStandardResponse_def fresh_def drain_idle)
  finally show ?thesis
    by (simp only: connected_def h)
qed

lemma connected_fields [simp]:
  "client connected = Some (Socket ''192.168.1.10'' 7765)"
  "quiet connected" "beginsent connected = False" "rate connected = None"
  "effects connected = [Invoked [ConnectThen, External 0] ack_frame, Resolved 0]"
  "timers connected = [(0, Resume [RunAfterDelay0])]"
  by (simp_all add: connected_eq fresh_def quiet_def)

lemma polling_fields [simp]:
  "client polling = Some (Socket ''192.168.1.10'' 7765)"
  "quiet polling" "beginsent polling = False" "rate polling = Some 30000"
  "running polling" "streamCallback polling = Some example_source"
  "EtherConn.playback_state polling = 0" "pulls polling = 0"
  "effects polling = [Invoked [ConnectThen, External 0] ack_frame, Resolved 0]"
  "timers polling = [(0, Resume [RunAfterDelay0])]"
  by (simp_all add: polling_def streamFrames_def connected_eq fresh_def quiet_def)

lemma begun_fields [simp]:
  "client begun = Some (Socket ''192.168.1.10'' 7765)" "quiet begun" "beginsent begun"
proof -
  let ?k = "[AfterBeginResp, External 1]"
  let ?s1 = "sent (begin_cmd 30000) ?k connected"
  have "begun = respond example_parser ack_frame ?s1"
    by (simp add: begun_def sendBegin_drained [where c = "Socket ''192.168.1.10'' 7765"])
  also have "\<dots> = drain example_parser
      (resume example_parser ?k (delivered example_parser ?k ack_frame ?s1))"
    by (rule respond_sent) simp_all
  also have "\<dots> = (delivered example_parser ?k ack_frame ?s1)
      \<lparr>beginsent := True,
        effects := effects connected @ [Write (begin_cmd 30000), Invoked ?k ack_frame, Resolved 1]\<rparr>"
    using connected_fields(2) [unfolded quiet_def] by (simp add: drain_idle)
  finally have eq: "begun = (delivered example_parser ?k ack_frame ?s1)
      \<lparr>beginsent := True,
        effects := effects connected @ [Write (begin_cmd 30000), Invoked ?k ack_frame, Resolved 1]\<rparr>" .
  show "client begun = Some (Socket ''192.168.1.10'' 7765)" "quiet begun" "beginsent begun"
    using connected_fields(2) [unfolded quiet_def] by (simp_all add: eq quiet_def)
qed

lemma two_waiting_eq:
  "two_waiting = fresh\<lparr>client := Some (Socket ''192.168.1.10'' 7765), running := True,
     ip := Some ''192.168.1.10'', port := Some 7765,
     rate := Some 30000, streamCallback := Some example_source, pulls := 1,
     effects := [Write ''p''],
     inputhandlerqueue := [(22, [ConnectThen, External 0]),
                           (22, [AfterPrepareResp, RunAfterPrepare example_frame])]\<rparr>"
  by (simp add: two_waiting_def turn.simps on_connect_def connect_def streamFrames_def
      fresh_def waitForResponse_def popinputqueue_def run_def sendPrepare_def send_await_def
      send_def STANDARD_RESPONSE_SIZE_def PLAYBACK_IDLE_def drain_idle Let_def
      example_source_def)

lemma grows_refl: "grows s s" by (simp add: grows_def)

lemma grows_trans: "grows s2 s1 \<Longrightarrow> grows s1 s0 \<Longrightarrow> grows s2 s0"
  by (auto simp: grows_def)

lemma grows_same: "effects s' = effects s \<Longrightarrow> grows s' s"
  by (simp add: grows_def)

lemma grows_app: "effects s' = effects s @ es \<Longrightarrow> grows s' s"
  by (auto simp: grows_def)

lemma pop_grows: "grows (popinputqueue P s) s"
  by (auto simp: popinputqueue_def callback_def Let_def grows_def handleStandardResponse_def
      split: list.splits)

lemma wait_grows: "grows (waitForResponse P sz k s) s"
  unfolding waitForResponse_def
  by (rule grows_trans [OF pop_grows]) (simp add: grows_def)

lemma send_grows: "grows (snd (send P c s)) s"
proof (cases "client s")
  case None
  then show ?thesis by (simp add: send_def grows_refl)
next
  case (Some sock)
  have "grows (s\<lparr>effects := effects s @ [Write c]\<rparr>) s"
    by (rule grows_app [where es = "[Write c]"]) simp
  then have "grows (popinputqueue P (s\<lparr>effects := effects s @ [Write c]\<rparr>)) s"
    by (rule grows_trans [OF pop_grows])
  with Some show ?thesis by (simp add: send_def)
qed

lemma send_await_grows: "grows (snd (send_await P c f k s)) s"
  unfolding send_await_def using send_grows [of P c s]
  by (auto split: prod.splits option.splits intro: grows_trans [OF wait_grows])

lemma sendBegin_grows: "grows (snd (sendBegin P rt k s)) s"
  unfolding sendBegin_def Let_def
  by (auto split: option.splits intro: grows_refl send_await_grows)

lemma run_points_grows: "grows (snd (run_points P frm cap s)) s"
  unfolding run_points_def sendPoints_def by (rule send_await_grows)

lemma run_send_grows: "grows (snd (run_send P frm s)) s"
  unfolding run_send_def
  by (auto split: prod.splits option.splits intro: grows_same run_points_grows)

lemma run_grows: "grows (snd (run P s)) s"
proof -
  have pull: "grows (s\<lparr>pulls := Suc (pulls s)\<rparr>) s"
    by (rule grows_same) simp
  show ?thesis
    unfolding run_def Let_def sendPrepare_def
    by (auto split: option.splits
        intro: grows_refl grows_same
          grows_trans [OF send_await_grows pull] grows_trans [OF run_send_grows pull])
qed

lemma settle_grows: "grows (snd r) s \<Longrightarrow> grows (settle fs r) s"
proof (cases r)
  case (Pair e s1)
  assume g: "grows (snd r) s"
  show ?thesis
  proof (cases e)
    case None
    with Pair g show ?thesis by simp
  next
    case (Some err)
    have "grows (s1\<lparr>effects := effects s1 @ [Rejected err fs]\<rparr>) s1"
      by (rule grows_app [where es = "[Rejected err fs]"]) simp
    then show ?thesis
      using Pair Some g by (auto intro: grows_trans)
  qed
qed

lemma frame_step_grows: "grows (snd (frame_step P f fs s)) s"
proof (cases f)
  case (External n)
  then show ?thesis
    by (auto intro: grows_app [where es = "[Resolved n]"])
qed (auto intro: grows_refl grows_same settle_grows sendBegin_grows
      run_send_grows run_points_grows run_grows)

lemma resume_grows: "grows (resume P k s) s"
proof (induction k arbitrary: s)
  case Nil
  show ?case by (simp add: grows_refl)
next
  case (Cons f fs)
  obtain b s1 where st: "frame_step P f fs s = (b, s1)"
    by (cases "frame_step P f fs s")
  have s1: "grows s1 s"
    using frame_step_grows [of P f fs s] st by simp
  show ?case
  proof (cases b)
    case True
    have "grows (resume P fs s1) s"
      by (rule grows_trans [OF Cons.IH s1])
    with st True show ?thesis by simp
  next
    case False
    with st s1 show ?thesis by simp
  qed
qed

lemma drain_grows: "grows (drain P s) s"
proof (induction P s rule: drain.induct)
  case (1 P s)
  show ?case
  proof (cases "microtasks s")
    case Nil
    then show ?thesis by (simp add: drain_idle grows_refl)
  next
    case (Cons k ks)
    have a: "grows (drain P (resume P k (s\<lparr>microtasks := ks\<rparr>))) (resume P k (s\<lparr>microtasks := ks\<rparr>))"
      using "1.IH" Cons by simp
    have b: "grows (resume P k (s\<lparr>microtasks := ks\<rparr>)) (s\<lparr>microtasks := ks\<rparr>)"
      by (rule resume_grows)
    have c: "grows (s\<lparr>microtasks := ks\<rparr>) s"
      by (rule grows_same) simp
    show ?thesis
      unfolding drain_next [OF Cons] by (rule grows_trans [OF a grows_trans [OF b c]])
  qed
qed

lemma length_full_frame [simp]: "length full_frame = 22"
  by (simp add: full_frame_def)

lemma parse_full_frame [simp]:
  "example_parser full_frame =
     \<lparr>response = ''a'',
      status = \<lparr>buffer_fullness = 1799, dac_status.playback_state = 2, playback_flags = 0\<rparr>\<rparr>"
  by (simp add: example_parser_def full_frame_def byte_at_def nth_Cons' char_of_def)

lemma full_fields [simp]:
  "client full = Some (Socket ''192.168.1.10'' 7765)" "quiet full" "fullness full = 1799"
  "running full" "streamCallback full = Some example_source"
  "EtherConn.playback_state full = 2" "pulls full = 0"
  "timers full = [(0, Resume [RunAfterDelay0])]"
proof -
  let ?k = "[AfterPingResp, External 1]"
  let ?s1 = "sent ''?'' ?k polling"
  have "full = respond example_parser full_frame ?s1"
    by (simp add: full_def sendPing_def
        send_await_quiet [where c = "Socket ''192.168.1.10'' 7765"] drain_idle
        polling_fields(2) [unfolded quiet_def])
  also have "\<dots> = drain example_parser
      (resume example_parser ?k (delivered example_parser ?k full_frame ?s1))"
    by (rule respond_sent) simp_all
  also have "\<dots> = (delivered example_parser ?k full_frame ?s1)
      \<lparr>effects := effects polling @ [Write ''?'', Invoked ?k full_frame, Resolved 1]\<rparr>"
    using polling_fields(2) [unfolded quiet_def] by (simp add: drain_idle)
  finally have eq: "full = (delivered example_parser ?k full_frame ?s1)
      \<lparr>effects := effects polling @ [Write ''?'', Invoked ?k full_frame, Resolved 1]\<rparr>" .
  show "client full = Some (Socket ''192.168.1.10'' 7765)" "quiet full" "fullness full = 1799"
    "running full" "streamCallback full = Some example_source"
    "EtherConn.playback_state full = 2" "pulls full = 0"
    "timers full = [(0, Resume [RunAfterDelay0])]"
    using polling_fields(2) [unfolded quiet_def] by (simp_all add: eq quiet_def)
qed

lemma run_points_quiet:
  "client s = Some c \<Longrightarrow> quiet s \<Longrightarrow>
   run_points P frm cap s =
     (None, sent (sendPoints_cmd (take (nat cap) frm)) [AfterPointsResp, RunAfterPoints] s)"
  by (simp add: run_points_def sendPoints_quiet [where c = c])

lemma delay_fires:
  assumes "client s = Some c" "quiet s"
  shows "turn P (TimeoutEvent (length (timers s)))
      (s\<lparr>timers := timers s @ [(t, Resume [RunAfterDelay frm cap])]\<rparr>) =
    sent (sendPoints_cmd (take (nat cap) frm)) [AfterPointsResp, RunAfterPoints] s"
proof -
  let ?task = "[RunAfterDelay frm cap]"
  let ?w = "s\<lparr>timers := timers s @ [(t, Resume ?task)]\<rparr>"
  have undo: "?w\<lparr>timers := timers s, microtasks := []\<rparr> = s"
    using assms by (simp add: quiet_def)
  have "turn P (TimeoutEvent (length (timers s))) ?w =
      drain P (?w\<lparr>timers := timers s, microtasks := [?task]\<rparr>)"
    using assms by (simp add: turn.simps on_timeout_def quiet_def)
  also have "\<dots> = drain P (resume P ?task
      (?w\<lparr>timers := timers s, microtasks := [?task], microtasks := []\<rparr>))"
    by (rule drain_next) simp
  also have "?w\<lparr>timers := timers s, microtasks := [?task], microtasks := []\<rparr> = s"
    using undo by simp
  also have "resume P ?task s =
      sent (sendPoints_cmd (take (nat cap) frm)) [AfterPointsResp, RunAfterPoints] s"
    using assms by (simp add: run_points_quiet [where c = c])
  also have "drain P \<dots> = \<dots>"
    using assms by (intro drain_idle) (simp add: quiet_def)
  finally show ?thesis .
qed

subsection \<open>The response demultiplexer\<close>

lemma invocations_append:
  "invocations (es @ es') = invocations es @ invocations es'"
  by (induction es rule: invocations.induct) simp_all

lemma handle_effects [simp]: "effects (handleStandardResponse d s) = effects s"
  by (simp add: handleStandardResponse_def Let_def)

lemma pop_ledger: "ledger (popinputqueue P s) future = ledger s future"
  by (auto simp: ledger_def popinputqueue_def callback_def Let_def invocations_append
      split: list.splits)

lemma extends_refl: "extends s s"
  by (simp add: extends_def)

lemma extends_trans: "extends s2 s1 \<Longrightarrow> extends s1 s0 \<Longrightarrow> extends s2 s0"
  unfolding extends_def by (metis append.assoc)

lemma extends_same:
  "invocations (effects s') = invocations (effects s) \<Longrightarrow> inputqueue s' = inputqueue s \<Longrightarrow>
   inputhandlerqueue s' = inputhandlerqueue s \<Longrightarrow> extends s' s"
  by (simp add: extends_def ledger_def)

lemma pop_extends: "extends (popinputqueue P s) s"
  by (simp add: extends_def pop_ledger)

lemma due_snoc:
  "due (hs @ [h]) bs = due hs bs @ [(snd h, take (fst h) (drop (sum_list (map fst hs)) bs))]"
  by (induction hs arbitrary: bs) (simp_all add: add.commute)

lemma push_extends: "extends (s\<lparr>inputhandlerqueue := inputhandlerqueue s @ [h]\<rparr>) s"
  by (simp add: extends_def ledger_def due_snoc)

lemma wait_extends: "extends (waitForResponse P sz k s) s"
  unfolding waitForResponse_def by (rule extends_trans [OF pop_extends push_extends])

lemma send_extends: "extends (snd (send P c s)) s"
proof (cases "client s")
  case None
  then show ?thesis by (simp add: send_def extends_refl)
next
  case (Some sock)
  have "extends (s\<lparr>effects := effects s @ [Write c]\<rparr>) s"
    by (rule extends_same) (simp_all add: invocations_append)
  then have "extends (popinputqueue P (s\<lparr>effects := effects s @ [Write c]\<rparr>)) s"
    by (rule extends_trans [OF pop_extends])
  with Some show ?thesis by (simp add: send_def)
qed

lemma send_await_extends: "extends (snd (send_await P c f k s)) s"
  unfolding send_await_def using send_extends [of P c s]
  by (auto split: prod.splits option.splits intro: extends_trans [OF wait_extends])

lemma sendBegin_extends: "extends (snd (sendBegin P rt k s)) s"
  unfolding sendBegin_def Let_def
  by (auto split: option.splits intro: extends_refl send_await_extends)

lemma run_points_extends: "extends (snd (run_points P frm cap s)) s"
  unfolding run_points_def sendPoints_def by (rule send_await_extends)

lemma run_send_extends: "extends (snd (run_send P frm s)) s"
  unfolding run_send_def
  by (auto split: prod.splits option.splits intro: extends_same run_points_extends)

lemma run_extends: "extends (snd (run P s)) s"
proof -
  have pull: "extends (s\<lparr>pulls := Suc (pulls s)\<rparr>) s"
    by (rule extends_same) simp_all
  show ?thesis
    unfolding run_def Let_def sendPrepare_def
    by (auto split: option.splits
        intro: extends_refl extends_same
          extends_trans [OF send_await_extends pull] extends_trans [OF run_send_extends pull])
qed

lemma settle_extends: "extends (snd r) s \<Longrightarrow> extends (settle fs r) s"
proof (cases r)
  case (Pair e s1)
  assume g: "extends (snd r) s"
  show ?thesis
  proof (cases e)
    case None
    with Pair g show ?thesis by simp
  next
    case (Some err)
    have "extends (s1\<lparr>effects := effects s1 @ [Rejected err fs]\<rparr>) s1"
      by (rule extends_same) (simp_all add: invocations_append)
    then show ?thesis
      using Pair Some g by (auto intro: extends_trans)
  qed
qed

lemma frame_step_extends: "extends (snd (frame_step P f fs s)) s"
  by (cases f)
    (auto intro: extends_refl extends_same settle_extends sendBegin_extends
      run_send_extends run_points_extends run_extends simp: invocations_append)

lemma resume_extends: "extends (resume P k s) s"
proof (induction k arbitrary: s)
  case Nil
  show ?case by (simp add: extends_refl)
next
  case (Cons f fs)
  obtain b s1 where st: "frame_step P f fs s = (b, s1)"
    by (cases "frame_step P f fs s")
  have s1: "extends s1 s"
    using frame_step_extends [of P f fs s] st by simp
  show ?case
  proof (cases b)
    case True
    have "extends (resume P fs s1) s"
      by (rule extends_trans [OF Cons.IH s1])
    with st True show ?thesis by simp
  next
    case False
    with st s1 show ?thesis by simp
  qed
qed

lemma drain_extends: "extends (drain P s) s"
proof (induction P s rule: drain.induct)
  case (1 P s)
  show ?case
  proof (cases "microtasks s")
    case Nil
    then show ?thesis by (simp add: drain_idle extends_refl)
  next
    case (Cons k ks)
    have a: "extends (drain P (resume P k (s\<lparr>microtasks := ks\<rparr>))) (resume P k (s\<lparr>microtasks := ks\<rparr>))"
      using "1.IH" Cons by simp
    have b: "extends (resume P k (s\<lparr>microtasks := ks\<rparr>)) (s\<lparr>microtasks := ks\<rparr>)"
      by (rule resume_extends)
    have c: "extends (s\<lparr>microtasks := ks\<rparr>) s"
      by (rule extends_same) simp_all
    show ?thesis
      unfolding drain_next [OF Cons] by (rule extends_trans [OF a extends_trans [OF b c]])
  qed
qed

lemma on_timeout_extends: "extends (on_timeout P i s) s"
proof (cases "i < length (timers s)")
  case False
  then show ?thesis by (simp add: on_timeout_def extends_refl)
next
  case True
  let ?s1 = "s\<lparr>timers := take i (timers s) @ drop (Suc i) (timers s)\<rparr>"
  have s1: "extends ?s1 s"
    by (rule extends_same) simp_all
  show ?thesis
  proof (cases "snd (timers s ! i)")
    case PopInput
    with True show ?thesis
      by (simp add: on_timeout_def extends_trans [OF pop_extends s1])
  next
    case (Resume k)
    have "extends (?s1\<lparr>microtasks := microtasks ?s1 @ [k]\<rparr>) s"
      by (rule extends_same) simp_all
    with True Resume show ?thesis
      by (simp add: on_timeout_def)
  qed
qed

lemma on_connect_extends: "extends (on_connect P s) s"
proof (cases "connecting s")
  case None
  then show ?thesis by (simp add: on_connect_def extends_refl)
next
  case (Some k)
  let ?s0 = "s\<lparr>connecting := None\<rparr>"
  let ?s1 = "waitForResponse P STANDARD_RESPONSE_SIZE (ConnectThen # k) ?s0"
  let ?s2 = "popinputqueue P ?s1"
  let ?s3 = "?s2\<lparr>running := True\<rparr>"
  have a: "extends ?s0 s" by (rule extends_same) simp_all
  have b: "extends ?s1 ?s0" by (rule wait_extends)
  have c: "extends ?s2 ?s1" by (rule pop_extends)
  have d: "extends ?s3 ?s2" by (rule extends_same) simp_all
  have e: "extends (settle [] (run P ?s3)) ?s3" by (rule settle_extends [OF run_extends])
  have "extends (settle [] (run P ?s3)) s"
    by (rule extends_trans [OF e extends_trans [OF d extends_trans [OF c extends_trans [OF b a]]]])
  with Some show ?thesis by (simp add: on_connect_def Let_def)
qed

lemma on_data_ledger: "ledger (on_data bs s) future = ledger s (bs @ future)"
  by (simp add: on_data_def ledger_def Let_def)

lemma turn_ledger:
  "\<exists>later. ledger (turn P e s) future = ledger s (inbound [e] @ future) @ later"
proof (cases e)
  case ConnectEvent
  have "extends (turn P ConnectEvent s) s"
    unfolding turn.simps by (rule extends_trans [OF drain_extends on_connect_extends])
  with ConnectEvent show ?thesis by (simp add: extends_def)
next
  case (DataEvent bs)
  have "extends (drain P (on_data bs s)) (on_data bs s)" by (rule drain_extends)
  then obtain later where "ledger (drain P (on_data bs s)) future = ledger (on_data bs s) future @ later"
    unfolding extends_def by blast
  with DataEvent show ?thesis by (simp add: turn.simps on_data_ledger)
next
  case (TimeoutEvent i)
  have "extends (turn P (TimeoutEvent i) s) s"
    unfolding turn.simps by (rule extends_trans [OF drain_extends on_timeout_extends])
  with TimeoutEvent show ?thesis by (simp add: extends_def)
qed

lemma events_ledger:
  "\<exists>later. ledger (events P evs s) future = ledger s (inbound evs @ future) @ later"
proof (induction evs arbitrary: s)
  case Nil
  show ?case by simp
next
  case (Cons e evs)
  obtain l1 where l1: "ledger (events P evs (turn P e s)) future =
      ledger (turn P e s) (inbound evs @ future) @ l1"
    using Cons.IH [of "turn P e s"] by blast
  obtain l2 where l2: "ledger (turn P e s) (inbound evs @ future) =
      ledger s (inbound [e] @ inbound evs @ future) @ l2"
    using turn_ledger [of P e s "inbound evs @ future"] by blast
  have "inbound (e # evs) = inbound [e] @ inbound evs"
    by (cases e) simp_all
  then show ?case
    using l1 l2 by simp
qed

lemma respond_pop:
  "microtasks s = [] \<Longrightarrow>
   respond P bs s = drain P (popinputqueue P (s\<lparr>inputqueue := inputqueue s @ bs\<rparr>))"
proof -
  assume m: "microtasks s = []"
  let ?s1 = "s\<lparr>inputqueue := inputqueue s @ bs, timers := timers s @ [(0, PopInput)]\<rparr>"
  have d: "turn P (DataEvent bs) s = ?s1"
    using m by (simp add: turn.simps on_data_def drain_idle)
  have t: "on_timeout P (length (timers s)) ?s1 =
      popinputqueue P (s\<lparr>inputqueue := inputqueue s @ bs\<rparr>)"
    by (simp add: on_timeout_def)
  show ?thesis
    unfolding respond_def d by (simp only: turn.simps t)
qed

lemma silent_resume:
  "list_all silent k \<Longrightarrow>
   inputqueue (resume P k s) = inputqueue s \<and>
   inputhandlerqueue (resume P k s) = inputhandlerqueue s \<and>
   microtasks (resume P k s) = microtasks s \<and>
   timers (resume P k s) = timers s \<and>
   invocations (effects (resume P k s)) = invocations (effects s)"
proof (induction k arbitrary: s)
  case Nil
  show ?case by simp
next
  case (Cons f fs)
  then have fs: "list_all silent fs" and f: "silent f" by simp_all
  from f show ?case
    using Cons.IH [OF fs] by (cases f) (simp_all add: invocations_append)
qed

lemma invocations_grow:
  "grows s' s \<Longrightarrow> \<exists>more. invocations (effects s') = invocations (effects s) @ more"
  by (auto simp: grows_def invocations_append)

text \<open>C1, as the code has it. A data event appends its bytes and schedules one run of
  \<^verbatim>\<open>_popinputqueue\<close>, and one run serves the head entry and no other. So when the
  inbound queue then holds at least as many bytes as the head entry requires, that
  delivery removes exactly that many bytes from the front, removes the head entry and
  invokes its continuation with those bytes; a further entry is served in the same turn
  only if the resumed continuation itself calls into the class again, and none is if it
  does not. When the bytes do not suffice for the head entry, or nothing is queued, the
  delivery only appends the bytes. Through every sequence of events, however the bytes
  are chunked, the continuations are invoked in the order they were registered, each at
  most once, each with exactly its requested byte count taken in order from the front
  of the inbound bytes; entries registered later follow.\<close>

theorem delivery_serves_head:
  "(microtasks s = [] \<and> inputhandlerqueue s = h # rest \<and>
    fst h \<le> length (inputqueue s @ bs) \<longrightarrow>
      (\<exists>more. invocations (effects (respond P bs s)) =
         invocations (effects s) @ (snd h, take (fst h) (inputqueue s @ bs)) # more) \<and>
      (list_all silent (snd h) \<longrightarrow>
         invocations (effects (respond P bs s)) =
           invocations (effects s) @ [(snd h, take (fst h) (inputqueue s @ bs))] \<and>
         inputhandlerqueue (respond P bs s) = rest \<and>
         inputqueue (respond P bs s) = drop (fst h) (inputqueue s @ bs))) \<and>
   (microtasks s = [] \<and>
    (\<forall>hd tl. inputhandlerqueue s = hd # tl \<longrightarrow> length (inputqueue s @ bs) < fst hd) \<longrightarrow>
      respond P bs s = s\<lparr>inputqueue := inputqueue s @ bs\<rparr>) \<and>
   (\<exists>later.
      invocations (effects (events P evs s)) @
        due (inputhandlerqueue (events P evs s)) (inputqueue (events P evs s)) =
      invocations (effects s) @ due (inputhandlerqueue s) (inputqueue s @ inbound evs) @ later)"
proof (intro conjI impI)
  show "\<exists>later.
      invocations (effects (events P evs s)) @
        due (inputhandlerqueue (events P evs s)) (inputqueue (events P evs s)) =
      invocations (effects s) @ due (inputhandlerqueue s) (inputqueue s @ inbound evs) @ later"
    using events_ledger [of P evs s "[]"] by (simp add: ledger_def)
next
  assume a: "microtasks s = [] \<and>
    (\<forall>hd tl. inputhandlerqueue s = hd # tl \<longrightarrow> length (inputqueue s @ bs) < fst hd)"
  then have "popinputqueue P (s\<lparr>inputqueue := inputqueue s @ bs\<rparr>) =
      s\<lparr>inputqueue := inputqueue s @ bs\<rparr>"
    by (auto simp: popinputqueue_def split: list.splits)
  then show "respond P bs s = s\<lparr>inputqueue := inputqueue s @ bs\<rparr>"
    using a by (simp add: respond_pop drain_idle)
next
  assume a: "microtasks s = [] \<and> inputhandlerqueue s = h # rest \<and>
    fst h \<le> length (inputqueue s @ bs)"
  define q where "q = inputqueue s @ bs"
  define c where "c = callback P (snd h) (take (fst h) q)
      (s\<lparr>inputqueue := drop (fst h) q, inputhandlerqueue := rest\<rparr>)"
  have pop: "popinputqueue P (s\<lparr>inputqueue := inputqueue s @ bs\<rparr>) = c"
    using a unfolding c_def q_def by (simp add: popinputqueue_def Let_def)
  have r: "respond P bs s = drain P c"
    using a by (simp only: respond_pop pop)
  have ci: "invocations (effects c) = invocations (effects s) @ [(snd h, take (fst h) q)]"
    unfolding c_def by (simp add: callback_def Let_def invocations_append)
  obtain more where "invocations (effects (drain P c)) = invocations (effects c) @ more"
    using invocations_grow [OF drain_grows] by blast
  then have "invocations (effects (respond P bs s)) =
      invocations (effects s) @ (snd h, take (fst h) q) # more"
    by (simp only: r ci) simp
  then show "\<exists>more. invocations (effects (respond P bs s)) =
      invocations (effects s) @ (snd h, take (fst h) (inputqueue s @ bs)) # more"
    unfolding q_def by blast
  assume sil: "list_all silent (snd h)"
  define c0 where "c0 = c\<lparr>microtasks := []\<rparr>"
  have m: "microtasks c = [snd h]"
    using a unfolding c_def by (simp add: callback_def Let_def)
  have c0: "inputqueue c0 = drop (fst h) q" "inputhandlerqueue c0 = rest"
    "invocations (effects c0) = invocations (effects s) @ [(snd h, take (fst h) q)]"
    "microtasks c0 = []"
    unfolding c0_def c_def by (simp_all add: callback_def Let_def invocations_append)
  have "drain P c = drain P (resume P (snd h) c0)"
    unfolding c0_def by (rule drain_next [OF m])
  also have "\<dots> = resume P (snd h) c0"
    by (rule drain_idle) (simp add: silent_resume [OF sil] c0)
  finally have r2: "respond P bs s = resume P (snd h) c0"
    by (simp only: r)
  show "invocations (effects (respond P bs s)) =
      invocations (effects s) @ [(snd h, take (fst h) (inputqueue s @ bs))]"
    unfolding r2 q_def [symmetric] using silent_resume [OF sil, of P c0] c0 by simp
  show "inputhandlerqueue (respond P bs s) = rest"
    unfolding r2 using silent_resume [OF sil, of P c0] c0 by simp
  show "inputqueue (respond P bs s) = drop (fst h) (inputqueue s @ bs)"
    unfolding r2 q_def [symmetric] using silent_resume [OF sil, of P c0] c0 by simp
qed

theorem delivery_serves_head_witness:
  "microtasks two_waiting = [] \<and>
   inputhandlerqueue two_waiting =
     (22, [ConnectThen, External 0]) # [(22, [AfterPrepareResp, RunAfterPrepare example_frame])] \<and>
   22 \<le> length (inputqueue two_waiting @ ack_frame) \<and>
   list_all silent [ConnectThen, External 0] \<and>
   invocations (effects (respond example_parser ack_frame two_waiting)) =
     [([ConnectThen, External 0], ack_frame)] \<and>
   inputhandlerqueue (respond example_parser ack_frame two_waiting) =
     [(22, [AfterPrepareResp, RunAfterPrepare example_frame])] \<and>
   inputqueue (respond example_parser ack_frame two_waiting) = [] \<and>
   length (inputqueue two_waiting @ [97]) < 22 \<and>
   respond example_parser [97] two_waiting = two_waiting\<lparr>inputqueue := [97]\<rparr>"
  using
    delivery_serves_head [where s = two_waiting and P = example_parser and bs = ack_frame
      and h = "(22, [ConnectThen, External 0])"
      and rest = "[(22, [AfterPrepareResp, RunAfterPrepare example_frame])]"]
    delivery_serves_head [where s = two_waiting and P = example_parser and bs = "[97]"]
  by (simp add: two_waiting_eq fresh_def)

text \<open>C1 as stated fails. \<^verbatim>\<open>streamFrames\<close> was called before \<^verbatim>\<open>connect\<close>, so when the
  socket connects two entries of 22 bytes are queued: the one of \<^verbatim>\<open>connect\<close> and the
  one of the scheduler's \<open>p\<close> command. The two responses, 44 bytes, arrive in one data
  event. After the whole turn only the first continuation has been invoked; the second
  entry stays queued with its 22 bytes in the inbound queue, and no timer or microtask
  is left to serve it.\<close>

theorem single_feed_serves_one:
  "length (ack_frame @ ack_frame) = 22 + 22 \<and>
   inputhandlerqueue two_waiting =
     [(22, [ConnectThen, External 0]), (22, [AfterPrepareResp, RunAfterPrepare example_frame])] \<and>
   inputqueue two_waiting = [] \<and>
   invocations (effects two_waiting) = [] \<and>
   invocations (effects (respond example_parser (ack_frame @ ack_frame) two_waiting)) =
     [([ConnectThen, External 0], ack_frame)] \<and>
   invocations (effects (respond example_parser (ack_frame @ ack_frame) two_waiting)) \<noteq>
     due (inputhandlerqueue two_waiting) (ack_frame @ ack_frame) \<and>
   inputhandlerqueue (respond example_parser (ack_frame @ ack_frame) two_waiting) =
     [(22, [AfterPrepareResp, RunAfterPrepare example_frame])] \<and>
   inputqueue (respond example_parser (ack_frame @ ack_frame) two_waiting) = ack_frame \<and>
   timers (respond example_parser (ack_frame @ ack_frame) two_waiting) = [] \<and>
   microtasks (respond example_parser (ack_frame @ ack_frame) two_waiting) = []"
  by (simp add: two_waiting_eq popinputqueue_def callback_def fresh_def Let_def
      handleStandardResponse_def respond_def turn.simps on_data_def on_timeout_def
      drain_idle drain_next)

subsection \<open>Response handling\<close>

text \<open>C2 at a response whose playback flags are 3: the bit of value 2 is set, together
  with the bit of value 1. \<^verbatim>\<open>handleStandardResponse\<close> compares the whole bitmask with
  2, so "begin sent" stays true. On the session \<open>begun\<close> a write-samples that is answered
  with such a response is followed by no begin.\<close>

theorem underrun_with_other_flag:
  "underrun_bit_set 3 \<and>
   beginsent (handleStandardResponse
     \<lparr>response = ''a'',
      status = \<lparr>buffer_fullness = 0, dac_status.playback_state = 2, playback_flags = 3\<rparr>\<rparr>
     (fresh\<lparr>beginsent := True\<rparr>)) = True \<and>
   beginsent begun \<and>
   playback_flags (status (example_parser underrun_frame)) = 3 \<and>
   beginsent (respond example_parser underrun_frame
     (drain example_parser (snd (sendPoints example_parser example_frame [External 2] begun)))) \<and>
   effects (respond example_parser underrun_frame
     (drain example_parser (snd (sendPoints example_parser example_frame [External 2] begun)))) =
     effects begun @
     [Write (sendPoints_cmd example_frame),
      Invoked [AfterPointsResp, External 2] underrun_frame, Resolved 2]"
proof -
  let ?k = "[AfterPointsResp, External 2]"
  let ?s1 = "sent (sendPoints_cmd example_frame) ?k begun"
  have "respond example_parser underrun_frame
      (drain example_parser (snd (sendPoints example_parser example_frame [External 2] begun))) =
    respond example_parser underrun_frame ?s1"
    by (simp add: sendPoints_drained [where c = "Socket ''192.168.1.10'' 7765"])
  also have "\<dots> = drain example_parser
      (resume example_parser ?k (delivered example_parser ?k underrun_frame ?s1))"
    by (rule respond_sent) simp_all
  also have "\<dots> = (delivered example_parser ?k underrun_frame ?s1)
      \<lparr>effects := effects begun @
        [Write (sendPoints_cmd example_frame), Invoked ?k underrun_frame, Resolved 2]\<rparr>"
    using begun_fields(2) [unfolded quiet_def] by (simp add: drain_idle)
  finally show ?thesis
    by (simp add: underrun_bit_set_def handleStandardResponse_def fresh_def)
qed

lemma handle_underrun_exact:
  "playback_flags (status d) = 2 \<Longrightarrow> beginsent (handleStandardResponse d s) = False"
  by (simp add: handleStandardResponse_def)

subsection \<open>The scheduler's capacity\<close>

text \<open>C3: on a connected session with no request outstanding, lines 260 to 268 of
  \<^verbatim>\<open>run\<close> compute the spare capacity \<open>max 0 (1799 - fullness)\<close>. Below 100 they write
  nothing and set a timer of 5 time-units that carries the capacity plus 150, and when
  it fires the batch of that padded capacity is written; otherwise the batch of the
  spare capacity is written at once. A fullness of 1799 gives spare capacity 0, the
  pause and capacity 150; a fullness of 1700 gives spare capacity 99, the pause and
  capacity 249. \<^verbatim>\<open>run\<close> reaches these lines with the frame it pulled.\<close>

theorem run_send_pauses_and_pads:
  assumes "client s \<noteq> None" "quiet s"
  shows
    "spare_capacity (fullness s) = max 0 (1799 - fullness s) \<and>
     run_send P frm s =
       (if spare_capacity (fullness s) < 100
        then (None, s\<lparr>timers := timers s @
               [(5, Resume [RunAfterDelay frm (spare_capacity (fullness s) + 150)])]\<rparr>)
        else (None, s\<lparr>effects := effects s @
               [Write (sendPoints_cmd (take (nat (spare_capacity (fullness s))) frm))],
               inputhandlerqueue := [(22, [AfterPointsResp, RunAfterPoints])]\<rparr>)) \<and>
     turn P (TimeoutEvent (length (timers s)))
         (s\<lparr>timers := timers s @ [(5, Resume [RunAfterDelay frm cap])]\<rparr>) =
       s\<lparr>effects := effects s @ [Write (sendPoints_cmd (take (nat cap) frm))],
         inputhandlerqueue := [(22, [AfterPointsResp, RunAfterPoints])]\<rparr> \<and>
     run_send P frm (s\<lparr>fullness := 1799\<rparr>) =
       (None, s\<lparr>fullness := 1799,
                timers := timers s @ [(5, Resume [RunAfterDelay frm 150])]\<rparr>) \<and>
     run_send P frm (s\<lparr>fullness := 1700\<rparr>) =
       (None, s\<lparr>fullness := 1700,
                timers := timers s @ [(5, Resume [RunAfterDelay frm 249])]\<rparr>) \<and>
     spare_capacity 1799 = 0 \<and> spare_capacity 1700 = 99 \<and>
     run P (s\<lparr>running := True, streamCallback := Some cb, playback_state := 2\<rparr>) =
       run_send P (cb (pulls s))
         (s\<lparr>running := True, streamCallback := Some cb, playback_state := 2,
            pulls := Suc (pulls s)\<rparr>)"
proof -
  obtain c where c: "client s = Some c"
    using assms(1) by auto
  have sp: "run_points P frm cp s =
      (None, s\<lparr>effects := effects s @ [Write (sendPoints_cmd (take (nat cp) frm))],
               inputhandlerqueue := [(22, [AfterPointsResp, RunAfterPoints])]\<rparr>)" for cp
    using c assms(2)
    by (simp add: run_points_quiet [where c = c] sent_def STANDARD_RESPONSE_SIZE_def)
  have a: "spare_capacity (fullness s) = max 0 (1799 - fullness s)"
    by (simp add: spare_capacity_def MAX_FULLNESS_def)
  have b: "run_send P frm s =
       (if spare_capacity (fullness s) < 100
        then (None, s\<lparr>timers := timers s @
               [(5, Resume [RunAfterDelay frm (spare_capacity (fullness s) + 150)])]\<rparr>)
        else (None, s\<lparr>effects := effects s @
               [Write (sendPoints_cmd (take (nat (spare_capacity (fullness s))) frm))],
               inputhandlerqueue := [(22, [AfterPointsResp, RunAfterPoints])]\<rparr>))"
    by (simp add: run_send_def run_capacity_def Let_def sp)
  have d: "turn P (TimeoutEvent (length (timers s)))
         (s\<lparr>timers := timers s @ [(5, Resume [RunAfterDelay frm cap])]\<rparr>) =
       s\<lparr>effects := effects s @ [Write (sendPoints_cmd (take (nat cap) frm))],
         inputhandlerqueue := [(22, [AfterPointsResp, RunAfterPoints])]\<rparr>"
    using delay_fires [OF c assms(2), of P 5 frm cap]
    by (simp add: sent_def STANDARD_RESPONSE_SIZE_def)
  have e: "run_send P frm (s\<lparr>fullness := 1799\<rparr>) =
       (None, s\<lparr>fullness := 1799,
                timers := timers s @ [(5, Resume [RunAfterDelay frm 150])]\<rparr>)"
    by (simp add: run_send_def run_capacity_def spare_capacity_def MAX_FULLNESS_def Let_def)
  have f: "run_send P frm (s\<lparr>fullness := 1700\<rparr>) =
       (None, s\<lparr>fullness := 1700,
                timers := timers s @ [(5, Resume [RunAfterDelay frm 249])]\<rparr>)"
    by (simp add: run_send_def run_capacity_def spare_capacity_def MAX_FULLNESS_def Let_def)
  have g: "spare_capacity 1799 = 0" "spare_capacity 1700 = 99"
    by (simp_all add: spare_capacity_def MAX_FULLNESS_def)
  have h: "run P (s\<lparr>running := True, streamCallback := Some cb, playback_state := 2\<rparr>) =
       run_send P (cb (pulls s))
         (s\<lparr>running := True, streamCallback := Some cb, playback_state := 2,
            pulls := Suc (pulls s)\<rparr>)"
    by (simp add: run_def Let_def PLAYBACK_IDLE_def)
  from a b d e f g h show ?thesis
    by (intro conjI)
qed

theorem run_send_pauses_and_pads_witness:
  "client full \<noteq> None \<and> quiet full \<and> fullness full = 1799 \<and>
   run_send example_parser example_frame full =
     (None, full\<lparr>timers := timers full @ [(5, Resume [RunAfterDelay example_frame 150])]\<rparr>) \<and>
   turn example_parser (TimeoutEvent (length (timers full)))
       (full\<lparr>timers := timers full @ [(5, Resume [RunAfterDelay example_frame 150])]\<rparr>) =
     full\<lparr>effects := effects full @ [Write (sendPoints_cmd (take 150 example_frame))],
       inputhandlerqueue := [(22, [AfterPointsResp, RunAfterPoints])]\<rparr>"
  using run_send_pauses_and_pads [where s = full and P = example_parser
      and frm = example_frame and cap = 150]
  by (simp add: spare_capacity_def MAX_FULLNESS_def)

subsection \<open>Closing\<close>

text \<open>C7, as the code has it: \<^verbatim>\<open>close\<close> resets the inbound byte queue, the
  pending-response queue, fullness, playback state, the "prepare sent", "begin sent" and
  "valid" flags and the running flag (and \<^verbatim>\<open>timer\<close>, \<^verbatim>\<open>acks\<close>, \<^verbatim>\<open>points_in_buffer\<close>,
  \<^verbatim>\<open>playsent\<close>) to the values of a fresh object, destroys the transport handle if there
  is one and forgets it, and keeps the sample source, the target sample rate and the
  address.\<close>

theorem close_resets:
  "inputqueue (close s) = inputqueue fresh \<and>
   inputhandlerqueue (close s) = inputhandlerqueue fresh \<and>
   timer (close s) = timer fresh \<and>
   acks (close s) = acks fresh \<and>
   fullness (close s) = fullness fresh \<and>
   points_in_buffer (close s) = points_in_buffer fresh \<and>
   EtherConn.playback_state (close s) = EtherConn.playback_state fresh \<and>
   playsent (close s) = playsent fresh \<and>
   beginsent (close s) = beginsent fresh \<and>
   preparesent (close s) = preparesent fresh \<and>
   valid (close s) = valid fresh \<and>
   running (close s) = running fresh \<and>
   client (close s) = None \<and>
   effects (close s) = effects s @ (case client s of None \<Rightarrow> [] | Some c \<Rightarrow> [Destroy]) \<and>
   streamCallback (close s) = streamCallback s \<and>
   rate (close s) = rate s \<and>
   ip (close s) = ip s \<and>
   port (close s) = port s"
  by (simp add: close_def fresh_def split: option.splits)

text \<open>C7 as stated fails: after \<^verbatim>\<open>streamFrames(30000)\<close> on a fresh object, \<^verbatim>\<open>close\<close>
  leaves the target sample rate at 30000, which is not the value of a fresh object.\<close>

theorem close_keeps_rate:
  "rate (close (streamFrames (Some 30000) None fresh)) = Some 30000 \<and>
   rate fresh = None \<and>
   rate (close (streamFrames (Some 30000) None fresh)) \<noteq> rate fresh"
  by (simp add: close_def streamFrames_def fresh_def)

subsection \<open>The write-samples command\<close>






subsection \<open>Begin and update\<close>

text \<open>C6: \<^verbatim>\<open>sendBegin\<close> with rate 0 or with no rate fails with the usage error and leaves
  the state as it was, so no byte is sent. With a non-zero rate, on a connected session
  with no request outstanding, it writes \<open>b\<close>, the low-water mark 0 as 16 bits and the
  rate as 32 bits, and queues one handler for a standard response of 22 bytes; "begin
  sent" is unchanged until that response is in, and true once it has been handled.\<close>

theorem sendBegin_checks_then_sends:
  "((rt = None \<or> rt = Some 0) \<longrightarrow>
      sendBegin P rt k s = (Some (Error ''Call streamFrames(rate, callback) first''), s)) \<and>
   (r \<noteq> 0 \<and> client s \<noteq> None \<and> quiet s \<and> length resp = 22 \<longrightarrow>
      fst (sendBegin P (Some r) [External n] s) = None \<and>
      effects (snd (sendBegin P (Some r) [External n] s)) =
        effects s @ [Write (''b'' @ writeUnsignedInt16 0 @ writeUnsignedInt32 r)] \<and>
      inputhandlerqueue (snd (sendBegin P (Some r) [External n] s)) =
        [(22, [AfterBeginResp, External n])] \<and>
      beginsent (snd (sendBegin P (Some r) [External n] s)) = beginsent s \<and>
      effects (respond P resp (drain P (snd (sendBegin P (Some r) [External n] s)))) =
        effects s @ [Write (''b'' @ writeUnsignedInt16 0 @ writeUnsignedInt32 r),
                     Invoked [AfterBeginResp, External n] resp, Resolved n] \<and>
      beginsent (respond P resp (drain P (snd (sendBegin P (Some r) [External n] s)))) = True)"
proof (intro conjI impI)
  assume "rt = None \<or> rt = Some 0"
  then show "sendBegin P rt k s = (Some (Error ''Call streamFrames(rate, callback) first''), s)"
    by (auto simp: sendBegin_def)
next
  let ?cmd = "''b'' @ writeUnsignedInt16 0 @ writeUnsignedInt32 r"
  let ?k = "[AfterBeginResp, External n]"
  let ?s1 = "sent ?cmd ?k s"
  assume a: "r \<noteq> 0 \<and> client s \<noteq> None \<and> quiet s \<and> length resp = 22"
  then obtain c where c: "client s = Some c" by auto
  have sb: "sendBegin P (Some r) [External n] s = (None, ?s1)"
    using a c sendBegin_quiet [of s c r P "[External n]"] by (simp add: begin_cmd_def)
  have dr: "drain P ?s1 = ?s1"
    using a by (simp add: drain_idle quiet_def)
  have fin: "respond P resp ?s1 = drain P (resume P ?k (delivered P ?k resp ?s1))"
    using a by (intro respond_sent) simp_all
  have res: "resume P ?k (delivered P ?k resp ?s1) =
      (delivered P ?k resp ?s1)\<lparr>beginsent := True,
        effects := effects s @ [Write ?cmd, Invoked ?k resp, Resolved n]\<rparr>"
    by simp
  have fin2: "respond P resp ?s1 =
      (delivered P ?k resp ?s1)\<lparr>beginsent := True,
        effects := effects s @ [Write ?cmd, Invoked ?k resp, Resolved n]\<rparr>"
    unfolding fin res using a by (intro drain_idle) (simp add: quiet_def)
  show "fst (sendBegin P (Some r) [External n] s) = None" by (simp add: sb)
  show "effects (snd (sendBegin P (Some r) [External n] s)) = effects s @ [Write ?cmd]"
    unfolding sb snd_conv by simp
  show "inputhandlerqueue (snd (sendBegin P (Some r) [External n] s)) = [(22, ?k)]"
    unfolding sb snd_conv by (simp add: STANDARD_RESPONSE_SIZE_def)
  show "beginsent (snd (sendBegin P (Some r) [External n] s)) = beginsent s"
    unfolding sb snd_conv by simp
  show "effects (respond P resp (drain P (snd (sendBegin P (Some r) [External n] s)))) =
        effects s @ [Write ?cmd, Invoked ?k resp, Resolved n]"
    unfolding sb snd_conv dr fin2 by simp
  show "beginsent (respond P resp (drain P (snd (sendBegin P (Some r) [External n] s)))) = True"
    unfolding sb snd_conv dr fin2 by simp
qed

theorem sendBegin_checks_then_sends_witness:
  "sendBegin example_parser None [External 1] connected =
     (Some (Error ''Call streamFrames(rate, callback) first''), connected) \<and>
   (30000 :: int) \<noteq> 0 \<and> client connected \<noteq> None \<and> quiet connected \<and>
   length ack_frame = 22 \<and>
   effects (respond example_parser ack_frame
     (drain example_parser (snd (sendBegin example_parser (Some 30000) [External 1] connected)))) =
     effects connected @
     [Write (''b'' @ writeUnsignedInt16 0 @ writeUnsignedInt32 30000),
      Invoked [AfterBeginResp, External 1] ack_frame, Resolved 1] \<and>
   beginsent (respond example_parser ack_frame
     (drain example_parser (snd (sendBegin example_parser (Some 30000) [External 1] connected))))"
  using sendBegin_checks_then_sends [where rt = None and r = 30000 and s = connected
      and resp = ack_frame and P = example_parser and n = 1 and k = "[External 1]"]
  by simp

text \<open>C10: \<^verbatim>\<open>sendUpdate\<close> checks nothing. For every rate, 0 too, on a connected session
  with no request outstanding, it writes \<open>u\<close>, the low-water mark 0 as 16 bits and the
  rate as 32 bits, and once the response is in "begin sent" is true; whereas
  \<^verbatim>\<open>sendBegin\<close> with rate 0 fails before it sends anything.\<close>

theorem sendUpdate_sends_any_rate:
  "(client s \<noteq> None \<and> quiet s \<and> length resp = 22 \<longrightarrow>
      fst (sendUpdate P r [External n] s) = None \<and>
      effects (snd (sendUpdate P r [External n] s)) =
        effects s @ [Write (''u'' @ writeUnsignedInt16 0 @ writeUnsignedInt32 r)] \<and>
      inputhandlerqueue (snd (sendUpdate P r [External n] s)) =
        [(22, [AfterUpdateResp, External n])] \<and>
      beginsent (snd (sendUpdate P r [External n] s)) = beginsent s \<and>
      effects (respond P resp (drain P (snd (sendUpdate P r [External n] s)))) =
        effects s @ [Write (''u'' @ writeUnsignedInt16 0 @ writeUnsignedInt32 r),
                     Invoked [AfterUpdateResp, External n] resp, Resolved n] \<and>
      beginsent (respond P resp (drain P (snd (sendUpdate P r [External n] s)))) = True) \<and>
   sendBegin P (Some 0) k s = (Some (Error ''Call streamFrames(rate, callback) first''), s)"
proof (intro conjI impI)
  show "sendBegin P (Some 0) k s = (Some (Error ''Call streamFrames(rate, callback) first''), s)"
    by (simp add: sendBegin_def)
next
  let ?cmd = "''u'' @ writeUnsignedInt16 0 @ writeUnsignedInt32 r"
  let ?k = "[AfterUpdateResp, External n]"
  let ?s1 = "sent ?cmd ?k s"
  assume a: "client s \<noteq> None \<and> quiet s \<and> length resp = 22"
  then obtain c where c: "client s = Some c" by auto
  have su: "sendUpdate P r [External n] s = (None, ?s1)"
    using a c by (simp add: sendUpdate_def Let_def send_await_quiet [where c = c])
  have dr: "drain P ?s1 = ?s1"
    using a by (simp add: drain_idle quiet_def)
  have fin: "respond P resp ?s1 = drain P (resume P ?k (delivered P ?k resp ?s1))"
    using a by (intro respond_sent) simp_all
  have res: "resume P ?k (delivered P ?k resp ?s1) =
      (delivered P ?k resp ?s1)\<lparr>beginsent := True,
        effects := effects s @ [Write ?cmd, Invoked ?k resp, Resolved n]\<rparr>"
    by simp
  have fin2: "respond P resp ?s1 =
      (delivered P ?k resp ?s1)\<lparr>beginsent := True,
        effects := effects s @ [Write ?cmd, Invoked ?k resp, Resolved n]\<rparr>"
    unfolding fin res using a by (intro drain_idle) (simp add: quiet_def)
  show "fst (sendUpdate P r [External n] s) = None" by (simp add: su)
  show "effects (snd (sendUpdate P r [External n] s)) = effects s @ [Write ?cmd]"
    unfolding su snd_conv by simp
  show "inputhandlerqueue (snd (sendUpdate P r [External n] s)) = [(22, ?k)]"
    unfolding su snd_conv by (simp add: STANDARD_RESPONSE_SIZE_def)
  show "beginsent (snd (sendUpdate P r [External n] s)) = beginsent s"
    unfolding su snd_conv by simp
  show "effects (respond P resp (drain P (snd (sendUpdate P r [External n] s)))) =
        effects s @ [Write ?cmd, Invoked ?k resp, Resolved n]"
    unfolding su snd_conv dr fin2 by simp
  show "beginsent (respond P resp (drain P (snd (sendUpdate P r [External n] s)))) = True"
    unfolding su snd_conv dr fin2 by simp
qed

theorem sendUpdate_sends_any_rate_witness:
  "client connected \<noteq> None \<and> quiet connected \<and> length ack_frame = 22 \<and>
   fst (sendUpdate example_parser 0 [External 1] connected) = None \<and>
   effects (respond example_parser ack_frame
     (drain example_parser (snd (sendUpdate example_parser 0 [External 1] connected)))) =
     effects connected @
     [Write (''u'' @ writeUnsignedInt16 0 @ writeUnsignedInt32 0),
      Invoked [AfterUpdateResp, External 1] ack_frame, Resolved 1] \<and>
   beginsent (respond example_parser ack_frame
     (drain example_parser (snd (sendUpdate example_parser 0 [External 1] connected))))"
  using sendUpdate_sends_any_rate [where r = 0 and s = connected
      and resp = ack_frame and P = example_parser and n = 1]
  by simp

subsection \<open>Write-samples and its response\<close>

lemma respond_points_nak:
  assumes "quiet s" "length resp = 22" "response (P resp) \<noteq> ''a''"
  shows "respond P resp (sent cmd [AfterPointsResp, External n] s) =
     (delivered P [AfterPointsResp, External n] resp (sent cmd [AfterPointsResp, External n] s))
     \<lparr>effects := effects s @ [Write cmd, Invoked [AfterPointsResp, External n] resp,
         Resolved n]\<rparr>"
proof -
  let ?k = "[AfterPointsResp, External n]"
  let ?s1 = "sent cmd ?k s"
  have "respond P resp ?s1 = drain P (resume P ?k (delivered P ?k resp ?s1))"
    using assms by (intro respond_sent) simp_all
  also have "resume P ?k (delivered P ?k resp ?s1) = (delivered P ?k resp ?s1)
     \<lparr>effects := effects s @ [Write cmd, Invoked ?k resp, Resolved n]\<rparr>"
    using assms by simp
  also have "drain P \<dots> = \<dots>"
    using assms by (intro drain_idle) (simp add: quiet_def)
  finally show ?thesis .
qed

lemma respond_points_ack:
  assumes "client s = Some c" "quiet s" "length resp = 22" "response (P resp) = ''a''"
    "\<not> beginsent s" "rate s = Some r" "r \<noteq> 0"
  shows "respond P resp (sent cmd (AfterPointsResp # k) s) =
     sent (begin_cmd r) (AfterBeginResp # AfterPointsBegin # k)
       (delivered P (AfterPointsResp # k) resp (sent cmd (AfterPointsResp # k) s))"
proof -
  let ?k = "AfterPointsResp # k"
  let ?s1 = "sent cmd ?k s"
  let ?d = "delivered P ?k resp ?s1"
  have q: "quiet ?d"
    using assms by (simp add: quiet_def)
  have sb: "sendBegin P (Some r) (AfterPointsBegin # k) ?d =
      (None, sent (begin_cmd r) (AfterBeginResp # AfterPointsBegin # k) ?d)"
    using assms q by (simp add: sendBegin_quiet [where c = c])
  have "respond P resp ?s1 = drain P (resume P ?k ?d)"
    using assms by (intro respond_sent) simp_all
  also have "resume P ?k ?d = sent (begin_cmd r) (AfterBeginResp # AfterPointsBegin # k) ?d"
    using assms by (simp add: sb)
  also have "drain P \<dots> = \<dots>"
    using assms by (intro drain_idle) (simp add: quiet_def)
  finally show ?thesis .
qed

text \<open>C9: every standard response sets "valid" to whether its code is \<open>a\<close>, whatever
  "valid" was. So on a connected session with a rate, no request outstanding and "begin
  sent" false: a write-samples whose response is not acknowledged leaves "valid" false
  and issues no begin; the next write-samples on the same session, acknowledged, leaves
  "valid" true and issues begin.\<close>

theorem valid_is_not_sticky:
  "valid (handleStandardResponse d s) = (response d = ''a'') \<and>
   (client s \<noteq> None \<and> quiet s \<and> \<not> beginsent s \<and> rate s = Some r \<and> r \<noteq> 0 \<and>
    length respA = 22 \<and> response (P respA) \<noteq> ''a'' \<and>
    length respB = 22 \<and> response (P respB) = ''a'' \<longrightarrow>
      \<not> valid (respond P respA (drain P (snd (sendPoints P ptsA [External n] s)))) \<and>
      effects (respond P respA (drain P (snd (sendPoints P ptsA [External n] s)))) =
        effects s @ [Write (sendPoints_cmd ptsA),
                     Invoked [AfterPointsResp, External n] respA, Resolved n] \<and>
      valid (respond P respB (drain P (snd (sendPoints P ptsB [External m]
        (respond P respA (drain P (snd (sendPoints P ptsA [External n] s)))))))) \<and>
      effects (respond P respB (drain P (snd (sendPoints P ptsB [External m]
        (respond P respA (drain P (snd (sendPoints P ptsA [External n] s)))))))) =
        effects s @ [Write (sendPoints_cmd ptsA),
                     Invoked [AfterPointsResp, External n] respA, Resolved n,
                     Write (sendPoints_cmd ptsB),
                     Invoked [AfterPointsResp, External m] respB,
                     Write (''b'' @ writeUnsignedInt16 0 @ writeUnsignedInt32 r)])"
proof (intro conjI impI)
  show "valid (handleStandardResponse d s) = (response d = ''a'')"
    by (simp add: handleStandardResponse_def Let_def)
next
  assume a: "client s \<noteq> None \<and> quiet s \<and> \<not> beginsent s \<and> rate s = Some r \<and> r \<noteq> 0 \<and>
    length respA = 22 \<and> response (P respA) \<noteq> ''a'' \<and>
    length respB = 22 \<and> response (P respB) = ''a''"
  then obtain c where c: "client s = Some c" by auto
  let ?k1 = "[AfterPointsResp, External n]"
  let ?k2 = "[AfterPointsResp, External m]"
  let ?t1 = "respond P respA (drain P (snd (sendPoints P ptsA [External n] s)))"
  let ?t2 = "respond P respB (drain P (snd (sendPoints P ptsB [External m] ?t1)))"
  have t1: "?t1 = (delivered P ?k1 respA (sent (sendPoints_cmd ptsA) ?k1 s))
     \<lparr>effects := effects s @ [Write (sendPoints_cmd ptsA), Invoked ?k1 respA, Resolved n]\<rparr>"
    unfolding sendPoints_drained [where c = c, OF c conjunct1 [OF conjunct2 [OF a]]]
    using a by (intro respond_points_nak) simp_all
  have q1: "client ?t1 = Some c" "quiet ?t1" "\<not> beginsent ?t1" "rate ?t1 = Some r"
    "\<not> valid ?t1"
    "effects ?t1 = effects s @ [Write (sendPoints_cmd ptsA), Invoked ?k1 respA, Resolved n]"
    unfolding t1 using a c by (simp_all add: quiet_def)
  have t2: "?t2 = sent (begin_cmd r) [AfterBeginResp, AfterPointsBegin, External m]
       (delivered P ?k2 respB (sent (sendPoints_cmd ptsB) ?k2 ?t1))"
    unfolding sendPoints_drained [where c = c, OF q1(1,2)]
    using a q1 by (intro respond_points_ack [where c = c]) simp_all
  show "\<not> valid ?t1" by (rule q1)
  show "effects ?t1 = effects s @ [Write (sendPoints_cmd ptsA), Invoked ?k1 respA, Resolved n]"
    by (rule q1)
  show "valid ?t2"
    by (subst t2) (use a in simp)
  show "effects ?t2 = effects s @ [Write (sendPoints_cmd ptsA), Invoked ?k1 respA, Resolved n,
      Write (sendPoints_cmd ptsB), Invoked ?k2 respB,
      Write (''b'' @ writeUnsignedInt16 0 @ writeUnsignedInt32 r)]"
    by (subst t2) (simp add: q1 begin_cmd_def)
qed

theorem valid_is_not_sticky_witness:
  "client polling \<noteq> None \<and> quiet polling \<and> \<not> beginsent polling \<and>
   rate polling = Some 30000 \<and> (30000 :: int) \<noteq> 0 \<and>
   length nak_frame = 22 \<and> response (example_parser nak_frame) \<noteq> ''a'' \<and>
   length ack_frame = 22 \<and> response (example_parser ack_frame) = ''a'' \<and>
   \<not> valid (respond example_parser nak_frame
     (drain example_parser (snd (sendPoints example_parser example_frame [External 1] polling)))) \<and>
   effects (respond example_parser ack_frame
     (drain example_parser (snd (sendPoints example_parser example_frame [External 2]
       (respond example_parser nak_frame
         (drain example_parser
           (snd (sendPoints example_parser example_frame [External 1] polling)))))))) =
     effects polling @
     [Write (sendPoints_cmd example_frame),
      Invoked [AfterPointsResp, External 1] nak_frame, Resolved 1,
      Write (sendPoints_cmd example_frame),
      Invoked [AfterPointsResp, External 2] ack_frame,
      Write (''b'' @ writeUnsignedInt16 0 @ writeUnsignedInt32 30000)]"
  using valid_is_not_sticky [where s = polling and r = 30000 and P = example_parser
      and respA = nak_frame and respB = ack_frame and ptsA = example_frame
      and ptsB = example_frame and n = 1 and m = 2]
  by simp

subsection \<open>Path drawing\<close>

lemma smooth_without_curve:
  "lastCurveCommand st = None \<Longrightarrow> lastMoveCommand st \<noteq> None \<Longrightarrow>
   \<not> list_ex is_curve pre \<Longrightarrow>
   draw_commands C col res st (pre @ SMOOTH_CURVE_TO cx cy x y # post) = Inl smooth_curve_error"
proof (induction pre arbitrary: st)
  case Nil
  then show ?case by simp
next
  case (Cons c pre)
  show ?case
  proof (cases "draw_command C col res st c")
    case (Inl e)
    with Cons.prems show ?thesis
      by (cases c) (auto simp: Let_def split: option.splits)
  next
    case (Inr r)
    obtain pts st' where r: "r = (pts, st')" by (cases r)
    have keep: "lastCurveCommand st' = None" "lastMoveCommand st' \<noteq> None"
      using Inr r Cons.prems by (cases c; auto simp: Let_def split: option.splits)+
    have "\<not> list_ex is_curve pre" using Cons.prems by simp
    from Cons.IH [OF keep this] show ?thesis
      using Inr r by simp
  qed
qed

lemma close_after_move:
  "lastMoveCommand st \<noteq> None \<Longrightarrow> draw_commands C col res st cs \<noteq> Inl close_path_error"
proof (induction cs arbitrary: st)
  case Nil
  show ?case by simp
next
  case (Cons c cs)
  show ?case
  proof (cases "draw_command C col res st c")
    case (Inl e)
    with Cons.prems show ?thesis
      by (cases c)
        (auto simp: Let_def smooth_curve_error_def close_path_error_def split: option.splits)
  next
    case (Inr r)
    obtain pts st' where r: "r = (pts, st')" by (cases r)
    have keep: "lastMoveCommand st' \<noteq> None"
      using Inr r Cons.prems by (cases c) (auto simp: Let_def split: option.splits)
    from Cons.IH [OF keep] show ?thesis
      using Inr r by (auto split: sum.splits)
  qed
qed

text \<open>C8: a smooth-curve command with no curve command before it, and a close-path
  command with no move command before it, each make \<^verbatim>\<open>draw\<close> throw a sequencing error
  to its caller instead of returning points. For the smooth-curve command on a path
  that starts with a move command it is the error of line 106. A path that does not
  start with a move command, as every path whose close-path command has no move command
  before it, is refused at line 39 with the library's \<^verbatim>\<open>path must start with moveto\<close>;
  the error of line 130 is never the one thrown.\<close>

theorem draw_sequencing_errors:
  "(\<not> list_ex is_curve pre \<longrightarrow>
      draw C col res (pre @ SMOOTH_CURVE_TO cx cy x y # post) =
        Inl (if moveto_first pre then smooth_curve_error else moveto_error)) \<and>
   (\<not> list_ex is_move pre \<longrightarrow>
      draw C col res (pre @ CLOSE_PATH # post) = Inl moveto_error) \<and>
   draw C col res path \<noteq> Inl close_path_error"
proof -
  let ?init = "\<lparr>lastMoveCommand = None, lastCurveCommand = None, prevX = 0, prevY = 0\<rparr> :: 'a pen"
  have never: "draw C col res path \<noteq> Inl close_path_error"
  proof (cases path)
    case Nil
    then show ?thesis by (simp add: draw_def)
  next
    case (Cons c cs)
    show ?thesis
    proof (cases c)
      case (MOVE_TO a b)
      have "draw_commands C col res (?init\<lparr>lastMoveCommand := Some (a, b), prevX := a, prevY := b\<rparr>) cs
          \<noteq> Inl close_path_error"
        by (rule close_after_move) simp
      with Cons MOVE_TO show ?thesis
        by (auto simp: draw_def split: sum.splits)
    qed (use Cons in \<open>simp_all add: draw_def moveto_error_def close_path_error_def\<close>)
  qed
  have closes: "draw C col res (pre @ CLOSE_PATH # post) = Inl moveto_error"
    if a: "\<not> list_ex is_move pre"
  proof (cases pre)
    case Nil
    then show ?thesis by (simp add: draw_def)
  next
    case (Cons c cs)
    with a have "\<not> is_move c" by simp
    with Cons show ?thesis by (simp add: draw_def)
  qed
  have smooths: "draw C col res (pre @ SMOOTH_CURVE_TO cx cy x y # post) =
      Inl (if moveto_first pre then smooth_curve_error else moveto_error)"
    if a: "\<not> list_ex is_curve pre"
  proof (cases pre)
    case Nil
    then show ?thesis by (simp add: draw_def)
  next
    case (Cons c cs)
    show ?thesis
    proof (cases c)
      case (MOVE_TO a b)
      have "draw_commands C col res
          (?init\<lparr>lastMoveCommand := Some (a, b), prevX := a, prevY := b\<rparr>)
          (cs @ SMOOTH_CURVE_TO cx cy x y # post) = Inl smooth_curve_error"
        using a Cons by (intro smooth_without_curve) simp_all
      with Cons MOVE_TO show ?thesis
        by (simp add: draw_def)
    qed (use Cons in \<open>simp_all add: draw_def\<close>)
  qed
  from never closes smooths show ?thesis
    by blast
qed

theorem draw_sequencing_errors_witness:
  "\<not> list_ex is_curve [MOVE_TO 0 0, LINE_TO 1 (1 :: int)] \<and>
   draw example_shapes () 10 ([MOVE_TO 0 0, LINE_TO 1 1] @ SMOOTH_CURVE_TO 3 3 4 4 # [LINE_TO 0 0]) =
     Inl smooth_curve_error \<and>
   \<not> list_ex is_curve [LINE_TO 1 (1 :: int)] \<and>
   draw example_shapes () 10 ([LINE_TO 1 1] @ SMOOTH_CURVE_TO 3 3 4 4 # [LINE_TO 0 0]) =
     Inl moveto_error \<and>
   \<not> list_ex is_move [LINE_TO 1 (1 :: int), HORIZ_LINE_TO 2] \<and>
   draw example_shapes () 10 ([LINE_TO 1 1, HORIZ_LINE_TO 2] @ CLOSE_PATH # [LINE_TO 0 0]) =
     Inl moveto_error"
  using
    draw_sequencing_errors [where pre = "[MOVE_TO 0 0, LINE_TO 1 1]"
      and C = example_shapes and col = "()" and res = 10 and cx = 3 and cy = 3 and x = 4
      and y = 4 and post = "[LINE_TO 0 0]"]
    draw_sequencing_errors [where pre = "[LINE_TO 1 1]"
      and C = example_shapes and col = "()" and res = 10 and cx = 3 and cy = 3 and x = 4
      and y = 4 and post = "[LINE_TO 0 0]"]
    draw_sequencing_errors [where pre = "[LINE_TO 1 1, HORIZ_LINE_TO 2]"
      and C = example_shapes and col = "()" and res = 10 and post = "[LINE_TO 0 0]"]
  by simp

subsection \<open>One iteration of the scheduler\<close>

lemma run_idle_start:
  assumes "client s = Some c" "quiet s" "running s" "streamCallback s = Some cb"
    "EtherConn.playback_state s = PLAYBACK_IDLE"
  shows "run P s = (None, sent ''p'' [AfterPrepareResp, RunAfterPrepare (cb (pulls s))]
      (s\<lparr>pulls := Suc (pulls s)\<rparr>))"
proof -
  have "quiet (s\<lparr>pulls := Suc (pulls s)\<rparr>)"
    using assms by (simp add: quiet_def)
  then show ?thesis
    using assms by (simp add: run_def Let_def sendPrepare_quiet [where c = c])
qed

text \<open>After the response to \<open>p\<close>, and after the pause if the loop takes one, the batch
  has been sent.\<close>

lemma run_after_prepare:
  fixes frm :: "IPoint list" and P :: parser and resp :: "byte list" and s :: EtherConn
  assumes "client s = Some c" "quiet s" "length resp = 22"
  defines "k \<equiv> [AfterPrepareResp, RunAfterPrepare frm]"
  defines "d \<equiv> (delivered P k resp (sent ''p'' k s))\<lparr>preparesent := True\<rparr>"
  defines "cap \<equiv> run_capacity (buffer_fullness (status (P resp)))"
  defines "s2 \<equiv> respond P resp (sent ''p'' k s)"
  shows "(case fst cap of None \<Rightarrow> s2
          | Some t \<Rightarrow> turn P (TimeoutEvent (length (timers s))) s2) =
      sent (sendPoints_cmd (take (nat (snd cap)) frm)) [AfterPointsResp, RunAfterPoints] d"
    and "effects s2 = effects s @ [Write ''p'', Invoked k resp] @
      (case fst cap of None \<Rightarrow> [Write (sendPoints_cmd (take (nat (snd cap)) frm))] | Some t \<Rightarrow> [])"
proof -
  let ?s1 = "sent ''p'' k s"
  let ?d0 = "delivered P k resp ?s1"
  let ?pts = "take (nat (snd cap)) frm"
  let ?kd = "[AfterPointsResp, RunAfterPoints]"
  have qd: "quiet d" "client d = Some c" "timers d = timers s"
    using assms(1,2) by (simp_all add: d_def quiet_def)
  have f: "fullness d = buffer_fullness (status (P resp))"
    by (simp add: d_def)
  obtain pc cc where cap_eq: "run_capacity (buffer_fullness (status (P resp))) = (pc, cc)"
    by (cases "run_capacity (buffer_fullness (status (P resp)))")
  then have cap_simps: "fst cap = pc" "snd cap = cc"
    by (simp_all add: cap_def)
  have pts: "run_points P frm (snd cap) d = (None, sent (sendPoints_cmd ?pts) ?kd d)"
    using qd by (simp add: run_points_def sendPoints_quiet [where c = c])
  have s2: "s2 = drain P (resume P k ?d0)"
    unfolding s2_def using assms(1-3) by (intro respond_sent) simp_all
  have r: "resume P k ?d0 = settle [] (run_send P frm d)"
    by (simp add: k_def d_def)
  have direct: "s2 = sent (sendPoints_cmd ?pts) ?kd d" if "fst cap = None"
  proof -
    have "run_send P frm d = (None, sent (sendPoints_cmd ?pts) ?kd d)"
      using that pts by (simp add: run_send_def f cap_eq cap_simps)
    then show ?thesis
      unfolding s2 r using qd by (simp add: drain_idle quiet_def)
  qed
  have paused: "s2 = d\<lparr>timers := timers s @ [(t, Resume [RunAfterDelay frm (snd cap)])]\<rparr>"
    if "fst cap = Some t" for t
  proof -
    have "run_send P frm d =
        (None, d\<lparr>timers := timers s @ [(t, Resume [RunAfterDelay frm (snd cap)])]\<rparr>)"
      using that qd by (simp add: run_send_def f cap_eq cap_simps)
    then show ?thesis
      unfolding s2 r using qd by (simp add: drain_idle quiet_def)
  qed
  show "(case fst cap of None \<Rightarrow> s2
          | Some t \<Rightarrow> turn P (TimeoutEvent (length (timers s))) s2) =
      sent (sendPoints_cmd ?pts) ?kd d"
  proof (cases "fst cap")
    case None
    with direct show ?thesis by simp
  next
    case (Some t)
    let ?task = "[RunAfterDelay frm (snd cap)]"
    let ?w = "d\<lparr>timers := timers s @ [(t, Resume ?task)]\<rparr>"
    have undo: "?w\<lparr>timers := timers s, microtasks := []\<rparr> = d"
      using qd by (simp add: quiet_def)
    have "turn P (TimeoutEvent (length (timers s))) ?w =
        drain P (?w\<lparr>timers := timers s, microtasks := [?task]\<rparr>)"
      using qd by (simp add: turn.simps on_timeout_def quiet_def)
    also have "\<dots> = drain P (resume P ?task
        (?w\<lparr>timers := timers s, microtasks := [?task], microtasks := []\<rparr>))"
      by (rule drain_next) simp
    also have "?w\<lparr>timers := timers s, microtasks := [?task], microtasks := []\<rparr> = d"
      using undo by simp
    also have "resume P ?task d = sent (sendPoints_cmd ?pts) ?kd d"
      by (simp add: pts)
    also have "drain P \<dots> = \<dots>"
      using qd by (intro drain_idle) (simp add: quiet_def)
    finally show ?thesis
      using Some paused [OF Some] by simp
  qed
  show "effects s2 = effects s @ [Write ''p'', Invoked k resp] @
      (case fst cap of None \<Rightarrow> [Write (sendPoints_cmd ?pts)] | Some t \<Rightarrow> [])"
  proof (cases "fst cap")
    case None
    with direct show ?thesis by (simp add: d_def)
  next
    case (Some t)
    with paused [OF Some] show ?thesis by (simp add: d_def)
  qed
qed

text \<open>C4: an iteration of the scheduler starts on a connected session with a sample
  source and a rate, no request outstanding, the last-known playback state idle and
  "begin sent" false; the responses arrive, the one to the samples acknowledged. Then
  \<open>p\<close> is written and nothing else until its response has been handled; then (after
  the pause, if the spare capacity is low) the batch is written and nothing else until
  its response has been handled; then begin is written, and its response is handled:
  in exactly that order.\<close>

theorem run_idle_order:
  assumes "client s \<noteq> None" "quiet s" "running s" "streamCallback s = Some cb"
    "EtherConn.playback_state s = PLAYBACK_IDLE" "\<not> beginsent s" "rate s = Some r" "r \<noteq> 0"
    "length respA = 22" "length respB = 22" "length respC = 22" "response (P respB) = ''a''"
  shows
    "let frm = cb (pulls s);
         cap = run_capacity (buffer_fullness (status (P respA)));
         batch = take (nat (snd cap)) frm;
         kp = [AfterPrepareResp, RunAfterPrepare frm];
         kd = [AfterPointsResp, RunAfterPoints];
         kb = [AfterBeginResp, AfterPointsBegin, RunAfterPoints];
         sa = drain P (snd (run P s));
         sb = respond P respA sa;
         sc = (case fst cap of None \<Rightarrow> sb
               | Some t \<Rightarrow> turn P (TimeoutEvent (length (timers s))) sb);
         sd = respond P respB sc;
         se = respond P respC sd
     in fst (run P s) = None \<and>
        effects sa = effects s @ [Write ''p''] \<and>
        effects sb = effects s @ [Write ''p'', Invoked kp respA] @
          (case fst cap of None \<Rightarrow> [Write (sendPoints_cmd batch)] | Some t \<Rightarrow> []) \<and>
        effects sc = effects s @ [Write ''p'', Invoked kp respA, Write (sendPoints_cmd batch)] \<and>
        effects sd = effects s @ [Write ''p'', Invoked kp respA, Write (sendPoints_cmd batch),
          Invoked kd respB, Write (''b'' @ writeUnsignedInt16 0 @ writeUnsignedInt32 r)] \<and>
        take 6 (drop (length (effects s)) (effects se)) =
          [Write ''p'', Invoked kp respA, Write (sendPoints_cmd batch),
           Invoked kd respB, Write (''b'' @ writeUnsignedInt16 0 @ writeUnsignedInt32 r),
           Invoked kb respC]"
proof -
  obtain c where c: "client s = Some c"
    using assms(1) by auto
  define frm where "frm = cb (pulls s)"
  define cap where "cap = run_capacity (buffer_fullness (status (P respA)))"
  define batch where "batch = take (nat (snd cap)) frm"
  define kp where "kp = [AfterPrepareResp, RunAfterPrepare frm]"
  define kd where "kd = [AfterPointsResp, RunAfterPoints]"
  define kb where "kb = [AfterBeginResp, AfterPointsBegin, RunAfterPoints]"
  define s0 where "s0 = s\<lparr>pulls := Suc (pulls s)\<rparr>"
  define sa where "sa = drain P (snd (run P s))"
  define sb where "sb = respond P respA sa"
  define sc where "sc = (case fst cap of None \<Rightarrow> sb
      | Some t \<Rightarrow> turn P (TimeoutEvent (length (timers s))) sb)"
  define sd where "sd = respond P respB sc"
  define se where "se = respond P respC sd"
  define d1 where "d1 = (delivered P kp respA (sent ''p'' kp s0))\<lparr>preparesent := True\<rparr>"
  define d2 where "d2 = delivered P kd respB (sent (sendPoints_cmd batch) kd d1)"
  define d3 where "d3 = delivered P kb respC (sent (begin_cmd r) kb d2)"
  have q0: "client s0 = Some c" "quiet s0"
    using c assms(2) by (simp_all add: s0_def quiet_def)
  have t0: "timers s0 = timers s"
    by (simp add: s0_def)
  have run: "run P s = (None, sent ''p'' kp s0)"
    unfolding kp_def frm_def s0_def using c assms(2-5) by (rule run_idle_start)
  have sa: "sa = sent ''p'' kp s0"
    unfolding sa_def run snd_conv using q0 by (intro drain_idle) (simp add: quiet_def)
  have sc: "sc = sent (sendPoints_cmd batch) kd d1"
    unfolding sc_def sb_def sa cap_def batch_def kd_def d1_def kp_def t0 [symmetric]
    using q0 assms(9) by (rule run_after_prepare(1))
  have e2: "effects sb = effects s0 @ [Write ''p'', Invoked kp respA] @
      (case fst cap of None \<Rightarrow> [Write (sendPoints_cmd batch)] | Some t \<Rightarrow> [])"
    unfolding sb_def sa cap_def batch_def kp_def
    using q0 assms(9) by (rule run_after_prepare(2))
  have q1: "client d1 = Some c" "quiet d1" "\<not> beginsent d1" "rate d1 = Some r"
    "effects d1 = effects s @ [Write ''p'', Invoked kp respA]"
    using q0 assms(6,7) by (simp_all add: d1_def quiet_def s0_def)
  have sd: "sd = sent (begin_cmd r) kb d2"
    unfolding sd_def sc kd_def kb_def d2_def
    using q1(1,2) assms(10,12) q1(3,4) assms(8) by (rule respond_points_ack)
  have q2: "quiet d2"
    "effects d2 = effects s @ [Write ''p'', Invoked kp respA, Write (sendPoints_cmd batch),
       Invoked kd respB]"
    using q1 by (simp_all add: d2_def quiet_def)
  have "se = drain P (resume P kb d3)"
    unfolding se_def sd d3_def using q2(1) assms(11) by (rule respond_sent)
  moreover have "grows (drain P (resume P kb d3)) d3"
    by (rule grows_trans [OF drain_grows resume_grows])
  ultimately obtain es where "effects se = effects d3 @ es"
    by (auto simp: grows_def)
  moreover have "effects d3 = effects s @ [Write ''p'', Invoked kp respA,
      Write (sendPoints_cmd batch), Invoked kd respB, Write (begin_cmd r), Invoked kb respC]"
    by (simp add: d3_def q2)
  ultimately have e5: "take 6 (drop (length (effects s)) (effects se)) =
      [Write ''p'', Invoked kp respA, Write (sendPoints_cmd batch), Invoked kd respB,
       Write (begin_cmd r), Invoked kb respC]"
    by simp
  have e1: "effects sa = effects s @ [Write ''p'']"
    by (simp add: sa s0_def)
  have e3: "effects sc = effects s @ [Write ''p'', Invoked kp respA, Write (sendPoints_cmd batch)]"
    by (simp add: sc q1)
  have e4: "effects sd = effects s @ [Write ''p'', Invoked kp respA, Write (sendPoints_cmd batch),
      Invoked kd respB, Write (begin_cmd r)]"
    by (simp add: sd q2)
  have e2': "effects sb = effects s @ [Write ''p'', Invoked kp respA] @
      (case fst cap of None \<Rightarrow> [Write (sendPoints_cmd batch)] | Some t \<Rightarrow> [])"
    using e2 by (simp add: s0_def)
  have r0: "fst (run P s) = None"
    by (simp add: run)
  show ?thesis
    unfolding Let_def
    using r0 e1 e2' e3 e4 e5
    unfolding sa_def sb_def sc_def sd_def se_def cap_def batch_def kp_def kd_def kb_def frm_def
      begin_cmd_def
    by (intro conjI)
qed

theorem run_idle_order_witness:
  "client polling \<noteq> None \<and> quiet polling \<and> running polling \<and>
   streamCallback polling = Some example_source \<and>
   EtherConn.playback_state polling = PLAYBACK_IDLE \<and> \<not> beginsent polling \<and>
   rate polling = Some 30000 \<and> (30000 :: int) \<noteq> 0 \<and> length ack_frame = 22 \<and>
   response (example_parser ack_frame) = ''a'' \<and>
   take 6 (drop (length (effects polling))
     (effects (respond example_parser ack_frame (respond example_parser ack_frame
        (respond example_parser ack_frame
           (drain example_parser (snd (run example_parser polling)))))))) =
     [Write ''p'', Invoked [AfterPrepareResp, RunAfterPrepare example_frame] ack_frame,
      Write (sendPoints_cmd example_frame),
      Invoked [AfterPointsResp, RunAfterPoints] ack_frame,
      Write (''b'' @ writeUnsignedInt16 0 @ writeUnsignedInt32 30000),
      Invoked [AfterBeginResp, AfterPointsBegin, RunAfterPoints] ack_frame]"
proof -
  have cap: "run_capacity 0 = (None, 1799)"
    by (simp add: run_capacity_def spare_capacity_def MAX_FULLNESS_def)
  have frm: "take 1799 example_frame = example_frame"
    by (simp add: example_frame_def)
  show ?thesis
    using run_idle_order [where s = polling and cb = example_source and r = 30000
        and P = example_parser and respA = ack_frame and respB = ack_frame
        and respC = ack_frame]
    by (simp add: PLAYBACK_IDLE_def Let_def cap frm example_source_def)
qed

end
